theory Spec2Isabelle
  imports Main
begin

section \<open>Python values, dictionaries and strings\<close>

text \<open>
  The functions of \<^verbatim>\<open>agno/utils/json_schema.py\<close> build and rewrite JSON-schema
  dictionaries. A Python value is a tree of \<open>pyval\<close>. A dictionary keeps its insertion
  order and has unique keys, so it is an association list; keys are strings
  (\<^verbatim>\<open>Dict[str, Any]\<close>).

  Python passes dictionaries by reference and \<^verbatim>\<open>inline_pydantic_schema\<close> writes into
  dictionaries it shares with its input. The objects that stay shared are the raw
  definitions under \<^verbatim>\<open>$defs\<close>: \<open>PRef n\<close> is a reference to the raw definition object
  stored under the name \<open>n\<close>, looked up in a store (a map from definition names to the
  current contents of these objects). \<open>PGraph st v\<close> is the value \<open>v\<close> together with
  the store \<open>st\<close> its references point into. Values that come from outside (pydantic's
  \<^verbatim>\<open>model_json_schema()\<close>) are fresh JSON trees: no object occurs in them twice, and they
  hold neither \<open>PRef\<close> nor \<open>PGraph\<close>.
\<close>

datatype pyval =
    PNone
  | PBool bool
  | PInt int
  | PStr string
  | PList "pyval list"
  | PDict "(string \<times> pyval) list"
  | PRef string
  | PGraph "(string \<times> pyval) list" pyval

type_synonym pydict = "(string \<times> pyval) list"

text \<open>The exceptions the module can raise; all are subclasses of \<^verbatim>\<open>Exception\<close>.\<close>

datatype py_error = AttributeError | KeyError | TypeError | StopIteration | ExternalError

fun dict_get :: "(string \<times> 'a) list \<Rightarrow> string \<Rightarrow> 'a option" where
  "dict_get [] k = None"
| "dict_get ((k', v) # d) k = (if k' = k then Some v else dict_get d k)"

definition dict_has :: "string \<Rightarrow> (string \<times> 'a) list \<Rightarrow> bool" where
  "dict_has k d \<longleftrightarrow> dict_get d k \<noteq> None"

text \<open>\<^verbatim>\<open>d[k] = v\<close>: an existing key keeps its position, a new key goes last.\<close>

fun dict_set :: "(string \<times> 'a) list \<Rightarrow> string \<Rightarrow> 'a \<Rightarrow> (string \<times> 'a) list" where
  "dict_set [] k v = [(k, v)]"
| "dict_set ((k', v') # d) k v = (if k' = k then (k, v) # d else (k', v') # dict_set d k v)"

fun dict_del :: "(string \<times> 'a) list \<Rightarrow> string \<Rightarrow> (string \<times> 'a) list" where
  "dict_del [] k = []"
| "dict_del ((k', v') # d) k = (if k' = k then dict_del d k else (k', v') # dict_del d k)"

definition dict_keys :: "(string \<times> 'a) list \<Rightarrow> string list" where
  "dict_keys d = map fst d"

definition set_opt :: "string \<Rightarrow> 'a option \<Rightarrow> (string \<times> 'a) list \<Rightarrow> (string \<times> 'a) list" where
  "set_opt k ov d = (case ov of None \<Rightarrow> d | Some v \<Rightarrow> dict_set d k v)"

text \<open>\<^verbatim>\<open>s.startswith(p)\<close>, \<^verbatim>\<open>s.split(c)\<close> for a one-character separator, and \<^verbatim>\<open>p in s\<close>
  on strings.\<close>

definition startswith :: "string \<Rightarrow> string \<Rightarrow> bool" where
  "startswith s p \<longleftrightarrow> take (length p) s = p"

fun py_split :: "char \<Rightarrow> string \<Rightarrow> string list" where
  "py_split c [] = [[]]"
| "py_split c (x # xs) =
     (if x = c then [] # py_split c xs
      else (case py_split c xs of [] \<Rightarrow> [[x]] | w # ws \<Rightarrow> (x # w) # ws))"

fun str_contains :: "string \<Rightarrow> string \<Rightarrow> bool" where
  "str_contains p [] = (p = [])"
| "str_contains p (x # xs) = (take (length p) (x # xs) = p \<or> str_contains p xs)"

definition deref :: "pydict \<Rightarrow> pyval \<Rightarrow> pyval" where
  "deref st v = (case v of PRef n \<Rightarrow> (case dict_get st n of Some w \<Rightarrow> w | None \<Rightarrow> PNone) | _ \<Rightarrow> v)"

text \<open>\<^verbatim>\<open>key in v\<close> for a string key: key membership on a dict, substring on a string,
  element membership on a list, \<^verbatim>\<open>TypeError\<close> on the values that are not containers.\<close>

definition py_contains :: "pyval \<Rightarrow> string \<Rightarrow> py_error + bool" where
  "py_contains v k =
     (case v of
        PDict d \<Rightarrow> Inr (dict_has k d)
      | PStr s \<Rightarrow> Inr (str_contains k s)
      | PList l \<Rightarrow> Inr (PStr k \<in> set l)
      | _ \<Rightarrow> Inl TypeError)"

definition has_key :: "pyval \<Rightarrow> string \<Rightarrow> bool" where
  "has_key v k = (case v of PDict d \<Rightarrow> dict_has k d | _ \<Rightarrow> False)"

section \<open>\<^verbatim>\<open>inline_pydantic_schema\<close>\<close>

definition fallback_object :: pyval where
  "fallback_object = PDict [(''type'', PStr ''object'')]"

text \<open>
  \<^verbatim>\<open>resolve_ref(ref, defs)\<close>. \<^verbatim>\<open>ref.startswith\<close> raises \<^verbatim>\<open>AttributeError\<close> when the
  value stored under \<^verbatim>\<open>$ref\<close> is not a string.
\<close>

definition resolve_ref :: "pyval \<Rightarrow> pydict \<Rightarrow> py_error + pyval" where
  "resolve_ref ref defs =
     (case ref of
        PStr r \<Rightarrow>
          (if \<not> startswith r ''#/$defs/'' then Inr fallback_object
           else (let def_name = last (py_split CHR ''/'' r) in
                 case dict_get defs def_name of
                   Some d \<Rightarrow> Inr d
                 | None \<Rightarrow> Inr fallback_object))
      | _ \<Rightarrow> Inl AttributeError)"

lemma dict_get_size:
  "dict_get s k = Some v \<Longrightarrow> size v < Suc (size_list (size_prod (\<lambda>x. 0) size) s)"
  by (induction s) (auto split: if_splits)

text \<open>
  \<^verbatim>\<open>process_schema(s, defs)\<close> returns the processed schema. It also changes its argument:
  \<^verbatim>\<open>result = s.copy()\<close> is a shallow copy, so \<^verbatim>\<open>result["properties"]\<close> is the very
  dictionary \<^verbatim>\<open>s["properties"]\<close>, and the loop over the properties writes each processed
  property into it. The model returns the pair of the result and the contents of the
  object \<open>s\<close> after the call. Every other key is rebound in the copy only, so under
  such a key \<open>s\<close> keeps its own sub-object (itself changed by the recursive call).
  When the code reads \<^verbatim>\<open>result[k]\<close> for one of the six keys, no earlier step has written
  that key, so the value read is \<open>s[k]\<close>.

  The list comprehension over \<^verbatim>\<open>anyOf\<close> / \<^verbatim>\<open>allOf\<close> iterates whatever is stored there:
  the elements of a list, the keys of a dict, the characters of a string (each a string,
  which \<^verbatim>\<open>process_schema\<close> returns as it is); any other value is not iterable.

  The six steps of the source are, in its order: \<open>process_sub\<close> for \<^verbatim>\<open>items\<close>,
  \<open>process_props\<close> for \<^verbatim>\<open>properties\<close> (\<^verbatim>\<open>.items()\<close> raises \<^verbatim>\<open>AttributeError\<close> on a
  value that is not a dict; \<open>process_properties\<close> is its loop), \<open>process_iter\<close> for
  \<^verbatim>\<open>anyOf\<close> and for \<^verbatim>\<open>allOf\<close> (\<open>process_list\<close> is the comprehension over a list),
  \<open>process_sub\<close> for \<^verbatim>\<open>additionalProperties\<close> and for \<^verbatim>\<open>propertyNames\<close>. Each returns
  \<open>None\<close> when the key is absent, else the new value for the copy and the new contents
  of the sub-object of \<open>s\<close>. The first step that raises ends the call.
\<close>

function process_schema :: "pyval \<Rightarrow> pydict \<Rightarrow> py_error + (pyval \<times> pyval)"
  and process_sub :: "pyval option \<Rightarrow> pydict \<Rightarrow> py_error + (pyval \<times> pyval) option"
  and process_props :: "pyval option \<Rightarrow> pydict \<Rightarrow> py_error + (pyval \<times> pyval) option"
  and process_iter :: "pyval option \<Rightarrow> pydict \<Rightarrow> py_error + (pyval \<times> pyval) option"
  and process_properties :: "pydict \<Rightarrow> pydict \<Rightarrow> py_error + pydict"
  and process_list :: "pyval list \<Rightarrow> pydict \<Rightarrow> py_error + (pyval list \<times> pyval list)"
where
  "process_schema (PDict s) defs =
     (case dict_get s ''$ref'' of
        Some ref \<Rightarrow>
          (case resolve_ref ref defs of Inl e \<Rightarrow> Inl e | Inr r \<Rightarrow> Inr (r, PDict s))
      | None \<Rightarrow>
     (case process_sub (dict_get s ''items'') defs of
        Inl e \<Rightarrow> Inl e
      | Inr items \<Rightarrow>
     (case process_props (dict_get s ''properties'') defs of
        Inl e \<Rightarrow> Inl e
      | Inr props \<Rightarrow>
     (case process_iter (dict_get s ''anyOf'') defs of
        Inl e \<Rightarrow> Inl e
      | Inr any_of \<Rightarrow>
     (case process_iter (dict_get s ''allOf'') defs of
        Inl e \<Rightarrow> Inl e
      | Inr all_of \<Rightarrow>
     (case process_sub (dict_get s ''additionalProperties'') defs of
        Inl e \<Rightarrow> Inl e
      | Inr additional \<Rightarrow>
     (case process_sub (dict_get s ''propertyNames'') defs of
        Inl e \<Rightarrow> Inl e
      | Inr names \<Rightarrow>
          Inr (PDict (set_opt ''propertyNames'' (map_option fst names)
                     (set_opt ''additionalProperties'' (map_option fst additional)
                     (set_opt ''allOf'' (map_option fst all_of)
                     (set_opt ''anyOf'' (map_option fst any_of)
                     (set_opt ''properties'' (map_option fst props)
                     (set_opt ''items'' (map_option fst items) s)))))),
               PDict (set_opt ''propertyNames'' (map_option snd names)
                     (set_opt ''additionalProperties'' (map_option snd additional)
                     (set_opt ''allOf'' (map_option snd all_of)
                     (set_opt ''anyOf'' (map_option snd any_of)
                     (set_opt ''properties'' (map_option snd props)
                     (set_opt ''items'' (map_option snd items) s))))))))))))))"
| "process_schema PNone defs = Inr (PNone, PNone)"
| "process_schema (PBool b) defs = Inr (PBool b, PBool b)"
| "process_schema (PInt i) defs = Inr (PInt i, PInt i)"
| "process_schema (PStr x) defs = Inr (PStr x, PStr x)"
| "process_schema (PList l) defs = Inr (PList l, PList l)"
| "process_schema (PRef n) defs = Inr (PRef n, PRef n)"
| "process_schema (PGraph st v) defs = Inr (PGraph st v, PGraph st v)"
| "process_sub None defs = Inr None"
| "process_sub (Some v) defs =
     (case process_schema v defs of Inl e \<Rightarrow> Inl e | Inr p \<Rightarrow> Inr (Some p))"
| "process_props None defs = Inr None"
| "process_props (Some (PDict ps)) defs =
     (case process_properties ps defs of
        Inl e \<Rightarrow> Inl e
      | Inr ps' \<Rightarrow> Inr (Some (PDict ps', PDict ps')))"
| "process_props (Some PNone) defs = Inl AttributeError"
| "process_props (Some (PBool b)) defs = Inl AttributeError"
| "process_props (Some (PInt i)) defs = Inl AttributeError"
| "process_props (Some (PStr x)) defs = Inl AttributeError"
| "process_props (Some (PList l)) defs = Inl AttributeError"
| "process_props (Some (PRef n)) defs = Inl AttributeError"
| "process_props (Some (PGraph st v)) defs = Inl AttributeError"
| "process_iter None defs = Inr None"
| "process_iter (Some (PList l)) defs =
     (case process_list l defs of
        Inl e \<Rightarrow> Inl e
      | Inr (rs, l') \<Rightarrow> Inr (Some (PList rs, PList l')))"
| "process_iter (Some (PDict d)) defs =
     Inr (Some (PList (map (\<lambda>kv. PStr (fst kv)) d), PDict d))"
| "process_iter (Some (PStr x)) defs = Inr (Some (PList (map (\<lambda>c. PStr [c]) x), PStr x))"
| "process_iter (Some PNone) defs = Inl TypeError"
| "process_iter (Some (PBool b)) defs = Inl TypeError"
| "process_iter (Some (PInt i)) defs = Inl TypeError"
| "process_iter (Some (PRef n)) defs = Inl TypeError"
| "process_iter (Some (PGraph st v)) defs = Inl TypeError"
| "process_properties [] defs = Inr []"
| "process_properties ((prop_name, prop_schema) # ps) defs =
     (case process_schema prop_schema defs of
        Inl e \<Rightarrow> Inl e
      | Inr (r, _) \<Rightarrow>
          (case process_properties ps defs of
             Inl e \<Rightarrow> Inl e
           | Inr ps' \<Rightarrow> Inr ((prop_name, r) # ps')))"
| "process_list [] defs = Inr ([], [])"
| "process_list (sub_schema # l) defs =
     (case process_schema sub_schema defs of
        Inl e \<Rightarrow> Inl e
      | Inr (r, sub') \<Rightarrow>
          (case process_list l defs of
             Inl e \<Rightarrow> Inl e
           | Inr (rs, l') \<Rightarrow> Inr (r # rs, sub' # l')))"
  by pat_completeness auto
termination
  by (relation "measure (\<lambda>x. case x of
          Inl (Inl (v, _)) \<Rightarrow> 2 * size v + 1
        | Inl (Inr (Inl (ov, _))) \<Rightarrow> (case ov of None \<Rightarrow> 0 | Some v \<Rightarrow> 2 * size v + 2)
        | Inl (Inr (Inr (ov, _))) \<Rightarrow> (case ov of None \<Rightarrow> 0 | Some v \<Rightarrow> 2 * size v + 2)
        | Inr (Inl (ov, _)) \<Rightarrow> (case ov of None \<Rightarrow> 0 | Some v \<Rightarrow> 2 * size v + 2)
        | Inr (Inr (Inl (ps, _))) \<Rightarrow> 2 * Suc (size_list (size_prod (\<lambda>x. 0) size) ps)
        | Inr (Inr (Inr (l, _))) \<Rightarrow> 2 * Suc (size_list size l))")
     (auto dest: dict_get_size split: option.splits)

text \<open>
  \<^verbatim>\<open>definitions = schema.pop("$defs", {})\<close> is a dictionary of references to the raw
  definition objects: \<open>def_refs\<close>. The loop
  \<^verbatim>\<open>resolved_definitions[def_name] = process_schema(def_schema, definitions)\<close> returns the
  resolved definitions and, as the store, the contents of the raw definition objects
  after every one of them has been processed. A raw definition is processed once, and a
  \<^verbatim>\<open>$ref\<close> to it is replaced by the object itself without a visit, so nothing writes to
  a raw definition after its own turn in the loop but the final \<^verbatim>\<open>del\<close>. A resolved
  definition is a fresh copy (or such a reference, or the fallback dict) that nothing
  writes to afterwards, so it is held by value.
\<close>

definition def_refs :: "pydict \<Rightarrow> pydict" where
  "def_refs definitions = map (\<lambda>kv. (fst kv, PRef (fst kv))) definitions"

fun resolve_definitions :: "pydict \<Rightarrow> pydict \<Rightarrow> py_error + (pydict \<times> pydict)" where
  "resolve_definitions [] defs = Inr ([], [])"
| "resolve_definitions ((def_name, def_schema) # ds) defs =
     (case process_schema def_schema defs of
        Inl e \<Rightarrow> Inl e
      | Inr (r, def') \<Rightarrow>
          (case resolve_definitions ds defs of
             Inl e \<Rightarrow> Inl e
           | Inr (resolved, raw) \<Rightarrow> Inr ((def_name, r) # resolved, (def_name, def') # raw)))"

text \<open>
  \<^verbatim>\<open>if "$defs" in result: del result["$defs"]\<close>. When the result is one of the raw
  definition objects the deletion is a write to the store. Deleting an item of a string
  or a list by a string key raises \<^verbatim>\<open>TypeError\<close>.
\<close>

definition remove_defs :: "pyval \<Rightarrow> pydict \<Rightarrow> py_error + (pyval \<times> pydict)" where
  "remove_defs result store =
     (case py_contains (deref store result) ''$defs'' of
        Inl e \<Rightarrow> Inl e
      | Inr False \<Rightarrow> Inr (result, store)
      | Inr True \<Rightarrow>
          (case deref store result of
             PDict d \<Rightarrow>
               (case result of
                  PRef n \<Rightarrow> Inr (result, dict_set store n (PDict (dict_del d ''$defs'')))
                | _ \<Rightarrow> Inr (PDict (dict_del d ''$defs''), store))
           | _ \<Rightarrow> Inl TypeError))"

text \<open>
  \<^verbatim>\<open>inline_pydantic_schema(schema)\<close> returns the result and the store of the raw
  definition objects its references point into. \<^verbatim>\<open>definitions.items()\<close> raises
  \<^verbatim>\<open>AttributeError\<close> when the value under \<^verbatim>\<open>$defs\<close> is not a dictionary.
\<close>

definition inline_pydantic_schema :: "pyval \<Rightarrow> py_error + (pyval \<times> pydict)" where
  "inline_pydantic_schema schema =
     (case schema of
        PDict s \<Rightarrow>
          (case (case dict_get s ''$defs'' of None \<Rightarrow> PDict [] | Some d \<Rightarrow> d) of
             PDict definitions \<Rightarrow>
               (case resolve_definitions definitions (def_refs definitions) of
                  Inl e \<Rightarrow> Inl e
                | Inr (resolved_definitions, store) \<Rightarrow>
                    (case process_schema (PDict (dict_del s ''$defs'')) resolved_definitions of
                       Inl e \<Rightarrow> Inl e
                     | Inr (result, _) \<Rightarrow> remove_defs result store))
           | _ \<Rightarrow> Inl AttributeError)
      | _ \<Rightarrow> Inr (schema, []))"

subsection \<open>When \<^verbatim>\<open>inline_pydantic_schema\<close> returns\<close>

text \<open>
  The code validates nothing. \<open>wf_schema\<close> follows the traversal of
  \<^verbatim>\<open>process_schema\<close> and holds exactly when no step of it raises: under a \<^verbatim>\<open>$ref\<close> key
  the value is a string; otherwise the value under \<^verbatim>\<open>properties\<close> is a dict, the values
  under \<^verbatim>\<open>anyOf\<close> and \<^verbatim>\<open>allOf\<close> are iterable, and the sub-schemas visited are themselves
  well-formed.
\<close>

definition is_str :: "pyval \<Rightarrow> bool" where
  "is_str v = (case v of PStr _ \<Rightarrow> True | _ \<Rightarrow> False)"

definition is_dict :: "pyval \<Rightarrow> bool" where
  "is_dict v = (case v of PDict _ \<Rightarrow> True | _ \<Rightarrow> False)"

function wf_schema :: "pyval \<Rightarrow> bool"
  and wf_sub :: "pyval option \<Rightarrow> bool"
  and wf_props :: "pyval option \<Rightarrow> bool"
  and wf_iter :: "pyval option \<Rightarrow> bool"
  and wf_properties :: "pydict \<Rightarrow> bool"
  and wf_list :: "pyval list \<Rightarrow> bool"
where
  "wf_schema (PDict s) =
     (case dict_get s ''$ref'' of
        Some ref \<Rightarrow> is_str ref
      | None \<Rightarrow>
          wf_sub (dict_get s ''items'') \<and> wf_props (dict_get s ''properties'') \<and>
          wf_iter (dict_get s ''anyOf'') \<and> wf_iter (dict_get s ''allOf'') \<and>
          wf_sub (dict_get s ''additionalProperties'') \<and> wf_sub (dict_get s ''propertyNames''))"
| "wf_schema PNone = True"
| "wf_schema (PBool b) = True"
| "wf_schema (PInt i) = True"
| "wf_schema (PStr x) = True"
| "wf_schema (PList l) = True"
| "wf_schema (PRef n) = True"
| "wf_schema (PGraph st v) = True"
| "wf_sub None = True"
| "wf_sub (Some v) = wf_schema v"
| "wf_props None = True"
| "wf_props (Some (PDict ps)) = wf_properties ps"
| "wf_props (Some PNone) = False"
| "wf_props (Some (PBool b)) = False"
| "wf_props (Some (PInt i)) = False"
| "wf_props (Some (PStr x)) = False"
| "wf_props (Some (PList l)) = False"
| "wf_props (Some (PRef n)) = False"
| "wf_props (Some (PGraph st v)) = False"
| "wf_iter None = True"
| "wf_iter (Some (PList l)) = wf_list l"
| "wf_iter (Some (PDict d)) = True"
| "wf_iter (Some (PStr x)) = True"
| "wf_iter (Some PNone) = False"
| "wf_iter (Some (PBool b)) = False"
| "wf_iter (Some (PInt i)) = False"
| "wf_iter (Some (PRef n)) = False"
| "wf_iter (Some (PGraph st v)) = False"
| "wf_properties [] = True"
| "wf_properties ((prop_name, prop_schema) # ps) = (wf_schema prop_schema \<and> wf_properties ps)"
| "wf_list [] = True"
| "wf_list (sub_schema # l) = (wf_schema sub_schema \<and> wf_list l)"
  by pat_completeness auto
termination
  by (relation "measure (\<lambda>x. case x of
          Inl (Inl v) \<Rightarrow> 2 * size v + 1
        | Inl (Inr (Inl ov)) \<Rightarrow> (case ov of None \<Rightarrow> 0 | Some v \<Rightarrow> 2 * size v + 2)
        | Inl (Inr (Inr ov)) \<Rightarrow> (case ov of None \<Rightarrow> 0 | Some v \<Rightarrow> 2 * size v + 2)
        | Inr (Inl ov) \<Rightarrow> (case ov of None \<Rightarrow> 0 | Some v \<Rightarrow> 2 * size v + 2)
        | Inr (Inr (Inl ps)) \<Rightarrow> 2 * Suc (size_list (size_prod (\<lambda>x. 0) size) ps)
        | Inr (Inr (Inr l)) \<Rightarrow> 2 * Suc (size_list size l))")
     (auto dest: dict_get_size split: option.splits)

text \<open>
  An input of \<^verbatim>\<open>inline_pydantic_schema\<close> is well-formed when it is a dict, the value
  under \<^verbatim>\<open>$defs\<close> (if there is one) is a dict whose values are dicts, and the schema and
  every definition are well-formed in the sense above.
\<close>

definition wf_input :: "pyval \<Rightarrow> bool" where
  "wf_input schema =
     (case schema of
        PDict s \<Rightarrow>
          (case (case dict_get s ''$defs'' of None \<Rightarrow> PDict [] | Some d \<Rightarrow> d) of
             PDict definitions \<Rightarrow>
               list_all (\<lambda>kv. is_dict (snd kv) \<and> wf_schema (snd kv)) definitions \<and>
               wf_schema schema
           | _ \<Rightarrow> False)
      | _ \<Rightarrow> False)"

lemma resolve_ref_returns: "(\<exists>r. resolve_ref ref defs = Inr r) \<longleftrightarrow> is_str ref"
  by (cases ref) (auto simp: resolve_ref_def is_str_def Let_def split: option.splits)

lemma process_returns:
  "(\<exists>p. process_schema v defs = Inr p) \<longleftrightarrow> wf_schema v"
  "(\<exists>p. process_sub ov defs = Inr p) \<longleftrightarrow> wf_sub ov"
  "(\<exists>p. process_props ov defs = Inr p) \<longleftrightarrow> wf_props ov"
  "(\<exists>p. process_iter ov defs = Inr p) \<longleftrightarrow> wf_iter ov"
  "(\<exists>p. process_properties ps defs = Inr p) \<longleftrightarrow> wf_properties ps"
  "(\<exists>p. process_list l defs = Inr p) \<longleftrightarrow> wf_list l"
proof (induction v defs and ov defs and ov defs and ov defs and ps defs and l defs
    rule: process_schema_process_sub_process_props_process_iter_process_properties_process_list.induct)
  case (1 s defs)
  then show ?case
  proof (cases "dict_get s ''$ref''")
    case (Some ref)
    then show ?thesis
      using resolve_ref_returns [of ref defs]
      by (auto split: sum.splits)
  next
    case None
    note ih = "1.IH" [OF None]
    show ?thesis
    proof
      assume "\<exists>p. process_schema (PDict s) defs = Inr p"
      then show "wf_schema (PDict s)"
        using None ih by (auto split: sum.splits)
    next
      assume wf: "wf_schema (PDict s)"
      from wf None ih(1) obtain a where a: "process_sub (dict_get s ''items'') defs = Inr a" by auto
      from wf None ih(2) [OF a] obtain b where b: "process_props (dict_get s ''properties'') defs = Inr b" by auto
      from wf None ih(3) [OF a b] obtain c where c: "process_iter (dict_get s ''anyOf'') defs = Inr c" by auto
      from wf None ih(4) [OF a b c] obtain d where d: "process_iter (dict_get s ''allOf'') defs = Inr d" by auto
      from wf None ih(5) [OF a b c d] obtain e where e: "process_sub (dict_get s ''additionalProperties'') defs = Inr e" by auto
      from wf None ih(6) [OF a b c d e] obtain f where f: "process_sub (dict_get s ''propertyNames'') defs = Inr f" by auto
      show "\<exists>p. process_schema (PDict s) defs = Inr p"
        using None a b c d e f by simp
    qed
  qed
next
  case (30 prop_name prop_schema ps defs)
  show ?case
  proof (cases "process_schema prop_schema defs")
    case (Inl e)
    with "30.IH"(1) show ?thesis by auto
  next
    case (Inr p)
    obtain r s' where p: "p = (r, s')" by (cases p)
    from "30.IH"(1) Inr have "wf_schema prop_schema" by auto
    moreover from "30.IH"(2) [OF Inr [unfolded p] refl]
    have "(\<exists>q. process_properties ps defs = Inr q) = wf_properties ps" .
    ultimately show ?thesis using Inr p by (auto split: sum.splits)
  qed
next
  case (32 sub_schema l defs)
  show ?case
  proof (cases "process_schema sub_schema defs")
    case (Inl e)
    with "32.IH"(1) show ?thesis by auto
  next
    case (Inr p)
    obtain r s' where p: "p = (r, s')" by (cases p)
    from "32.IH"(1) Inr have "wf_schema sub_schema" by auto
    moreover from "32.IH"(2) [OF Inr [unfolded p] refl]
    have "(\<exists>q. process_list l defs = Inr q) = wf_list l" .
    ultimately show ?thesis using Inr p by (auto split: sum.splits)
  qed
qed (auto split: sum.splits)


lemma dict_get_set: "dict_get (dict_set d k v) k' = (if k' = k then Some v else dict_get d k')"
  by (induction d) auto

lemma dict_has_set: "dict_has k (dict_set d k' v) \<longleftrightarrow> k = k' \<or> dict_has k d"
  by (simp add: dict_has_def dict_get_set)

lemma dict_get_del: "dict_get (dict_del d k) k' = (if k' = k then None else dict_get d k')"
  by (induction d) auto

lemma dict_has_set_opt: "dict_has k (set_opt k' ov d) \<Longrightarrow> k = k' \<or> dict_has k d"
  by (cases ov) (auto simp: set_opt_def dict_has_set)

lemma remove_defs_no_defs:
  assumes "remove_defs result store = Inr (root, store')"
  shows "\<not> has_key (deref store' root) ''$defs''"
proof (cases "deref store result")
  case (PDict d)
  show ?thesis
  proof (cases "dict_has ''$defs'' d")
    case True
    show ?thesis
    proof (cases result)
      case (PRef n)
      with assms PDict True show ?thesis
        by (auto simp: remove_defs_def py_contains_def has_key_def deref_def dict_get_set
            dict_has_def dict_get_del)
    qed (use assms PDict True in \<open>auto simp: remove_defs_def py_contains_def has_key_def deref_def
            dict_has_def dict_get_del\<close>)
  next
    case False
    with assms PDict show ?thesis
      by (auto simp: remove_defs_def py_contains_def has_key_def)
  qed
qed (use assms in \<open>auto simp: remove_defs_def py_contains_def has_key_def split: if_splits bool.splits\<close>)

lemma inline_no_defs:
  assumes "inline_pydantic_schema schema = Inr (root, store)"
  shows "\<not> has_key (deref store root) ''$defs''"
proof (cases schema)
  case (PDict s)
  with assms show ?thesis
    by (auto simp: inline_pydantic_schema_def split: pyval.splits sum.splits option.splits
        dest: remove_defs_no_defs)
qed (use assms in \<open>auto simp: inline_pydantic_schema_def has_key_def deref_def\<close>)


lemma dict_get_in_set: "dict_get d k = Some v \<Longrightarrow> (k, v) \<in> set d"
  by (induction d) (auto split: if_splits)

lemma dict_get_key_in: "k \<in> fst ` set d \<Longrightarrow> \<exists>v. dict_get d k = Some v"
  by (induction d) force+

lemma resolve_ref_value:
  "resolve_ref ref defs = Inr r \<Longrightarrow> r = fallback_object \<or> r \<in> snd ` set defs"
  by (cases ref)
     (auto simp: resolve_ref_def Let_def split: if_splits option.splits dest!: dict_get_in_set
       intro: rev_image_eqI)

lemma process_schema_dict_shape:
  assumes "process_schema (PDict s) defs = Inr (r, s')"
  shows "is_dict s' \<and> (is_dict r \<or> r \<in> snd ` set defs)"
proof (cases "dict_get s ''$ref''")
  case (Some ref)
  with assms show ?thesis
    by (auto simp: is_dict_def fallback_object_def split: sum.splits dest!: resolve_ref_value)
next
  case None
  with assms show ?thesis
    by (auto simp: is_dict_def split: sum.splits)
qed

lemma wf_schema_del_defs: "wf_schema (PDict (dict_del s ''$defs'')) = wf_schema (PDict s)"
  by (cases "dict_get s ''$ref''") (simp_all add: dict_get_del)

lemma resolve_definitions_returns:
  "(\<exists>p. resolve_definitions ds defs = Inr p) \<longleftrightarrow> list_all (\<lambda>kv. wf_schema (snd kv)) ds"
proof (induction ds)
  case Nil
  show ?case by simp
next
  case (Cons a ds)
  obtain n D where a: "a = (n, D)" by (cases a)
  show ?case
    using Cons.IH process_returns(1) [of D defs]
    by (auto simp: a split: sum.splits)
qed

lemma resolve_definitions_shape:
  assumes "resolve_definitions ds defs = Inr (res, raw)"
    and "list_all (\<lambda>kv. is_dict (snd kv)) ds"
  shows "map fst raw = map fst ds \<and> list_all (\<lambda>kv. is_dict (snd kv)) raw \<and>
         (\<forall>r \<in> snd ` set res. is_dict r \<or> r \<in> snd ` set defs)"
  using assms
proof (induction ds arbitrary: res raw)
  case Nil
  then show ?case by simp
next
  case (Cons a ds)
  obtain n D where a: "a = (n, D)" by (cases a)
  from Cons.prems(2) a obtain s where D: "D = PDict s"
    by (cases D) (auto simp: is_dict_def)
  from Cons.prems(1) a obtain r D' res' raw' where
    p: "process_schema D defs = Inr (r, D')" and
    rest: "resolve_definitions ds defs = Inr (res', raw')" and
    eq: "res = (n, r) # res'" "raw = (n, D') # raw'"
    by (auto split: sum.splits)
  from Cons.prems(2) have "list_all (\<lambda>kv. is_dict (snd kv)) ds" by simp
  from Cons.IH [OF rest this] process_schema_dict_shape [OF p [unfolded D]]
  show ?case by (simp add: eq a)
qed

lemma remove_defs_returns:
  assumes "is_dict (deref store result)"
  shows "\<exists>root store' d. remove_defs result store = Inr (root, store') \<and> deref store' root = PDict d"
proof -
  from assms obtain d where d: "deref store result = PDict d"
    by (cases "deref store result") (auto simp: is_dict_def)
  show ?thesis
  proof (cases "dict_has ''$defs'' d")
    case False
    with d show ?thesis by (simp add: remove_defs_def py_contains_def)
  next
    case True
    show ?thesis
    proof (cases result)
      case (PRef n)
      with d True show ?thesis
        by (simp add: remove_defs_def py_contains_def deref_def dict_get_set)
    qed (use d True in \<open>auto simp: remove_defs_def py_contains_def deref_def\<close>)
  qed
qed

lemma deref_def_refs:
  assumes "r \<in> snd ` set (def_refs definitions)"
    and "map fst raw = map fst definitions"
    and "list_all (\<lambda>kv. is_dict (snd kv)) raw"
  shows "is_dict (deref raw r)"
proof -
  from assms(1) obtain e where e: "r = PRef e" "e \<in> fst ` set definitions"
    by (force simp: def_refs_def)
  from e(2) assms(2) have "e \<in> fst ` set raw"
    by (metis set_map)
  then obtain v where v: "dict_get raw e = Some v" using dict_get_key_in by blast
  from dict_get_in_set [OF v] assms(3) have "is_dict v"
    by (auto simp: list_all_iff)
  with e v show ?thesis by (simp add: deref_def)
qed

lemma inline_returns:
  assumes "wf_input schema"
  shows "\<exists>root store d. inline_pydantic_schema schema = Inr (root, store) \<and> deref store root = PDict d"
proof -
  from assms obtain s definitions where
    s: "schema = PDict s" and
    defs: "(case dict_get s ''$defs'' of None \<Rightarrow> PDict [] | Some d \<Rightarrow> d) = PDict definitions" and
    wfd: "list_all (\<lambda>kv. is_dict (snd kv) \<and> wf_schema (snd kv)) definitions" and
    wfs: "wf_schema (PDict s)"
    by (auto simp: wf_input_def split: pyval.splits)
  from wfd have d1: "list_all (\<lambda>kv. wf_schema (snd kv)) definitions"
    and d2: "list_all (\<lambda>kv. is_dict (snd kv)) definitions"
    by (auto simp: list_all_iff)
  from d1 obtain res raw where
    rd: "resolve_definitions definitions (def_refs definitions) = Inr (res, raw)"
    using resolve_definitions_returns [of definitions "def_refs definitions"] by auto
  note shape = resolve_definitions_shape [OF rd d2]
  from wfs obtain result s' where
    ps: "process_schema (PDict (dict_del s ''$defs'')) res = Inr (result, s')"
    using process_returns(1) [of "PDict (dict_del s ''$defs'')" res] wf_schema_del_defs [of s]
    by auto
  have "is_dict (deref raw result)"
  proof -
    from process_schema_dict_shape [OF ps]
    consider "is_dict result" | "result \<in> snd ` set res" by auto
    then show ?thesis
    proof cases
      case 1
      then show ?thesis by (cases result) (auto simp: is_dict_def deref_def)
    next
      case 2
      with shape consider "is_dict result" | "result \<in> snd ` set (def_refs definitions)"
        by auto
      then show ?thesis
      proof cases
        case 1
        then show ?thesis by (cases result) (auto simp: is_dict_def deref_def)
      next
        case 2
        from deref_def_refs [OF 2] shape show ?thesis by simp
      qed
    qed
  qed
  from remove_defs_returns [OF this]
  show ?thesis
    by (simp add: inline_pydantic_schema_def s defs rd ps del: process_schema.simps)
qed


lemma py_split_no_sep: "c \<notin> set xs \<Longrightarrow> py_split c xs = [xs]"
  by (induction xs) auto

lemma py_split_not_Nil: "py_split c xs \<noteq> []"
  by (induction xs) (auto split: list.splits)

lemma length_py_split: "length (py_split c xs) = Suc (length (filter (\<lambda>x. x = c) xs))"
  by (induction xs) (auto split: list.splits)

lemma last_py_split_append:
  "last (py_split c (xs @ c # ys)) = last (py_split c ys)"
proof (induction xs)
  case Nil
  show ?case by (simp add: py_split_not_Nil)
next
  case (Cons x xs)
  show ?case
  proof (cases "x = c")
    case True
    with Cons show ?thesis by (simp add: py_split_not_Nil)
  next
    case False
    have "length (py_split c (xs @ c # ys)) \<ge> 2"
      by (simp add: length_py_split)
    then obtain w w' ws where "py_split c (xs @ c # ys) = w # w' # ws"
      by (cases "py_split c (xs @ c # ys)"; cases "tl (py_split c (xs @ c # ys))") auto
    with Cons False show ?thesis by simp
  qed
qed

lemma last_py_split_name:
  "c \<notin> set name \<Longrightarrow> last (py_split c (xs @ c # name)) = name"
  by (simp add: last_py_split_append py_split_no_sep)

lemma resolve_ref_external:
  "\<not> startswith r ''#/$defs/'' \<Longrightarrow> resolve_ref (PStr r) defs = Inr fallback_object"
  by (simp add: resolve_ref_def)

lemma resolve_ref_local:
  assumes "CHR ''/'' \<notin> set name"
  shows "resolve_ref (PStr (''#/$defs/'' @ name)) defs =
         Inr (case dict_get defs name of Some d \<Rightarrow> d | None \<Rightarrow> fallback_object)"
proof -
  have "last (py_split CHR ''/'' (''#/$defs'' @ CHR ''/'' # name)) = name"
    using assms by (rule last_py_split_name)
  then have "last (py_split CHR ''/'' (''#/$defs/'' @ name)) = name" by simp
  moreover have "startswith (''#/$defs/'' @ name) ''#/$defs/''"
    by (simp add: startswith_def)
  ultimately show ?thesis
    unfolding resolve_ref_def by (simp split: option.splits del: py_split.simps)
qed

text \<open>
  Claim C10, as the code has it. (1) Whenever \<^verbatim>\<open>inline_pydantic_schema\<close> returns, the
  object it returns has no top-level \<^verbatim>\<open>$defs\<close> key. (2) On a dict that is well-formed
  (the value under \<^verbatim>\<open>$defs\<close>, if any, is a dict of dicts, and the schema and every
  definition are well-formed along the keys the traversal visits) it does return, and
  returns a dict. (3) A \<^verbatim>\<open>$ref\<close> that does not start with \<^verbatim>\<open>#/$defs/\<close> is replaced by
  \<^verbatim>\<open>{"type": "object"}\<close>. (4) A \<^verbatim>\<open>$ref\<close> of the form \<^verbatim>\<open>#/$defs/<name>\<close>, with no
  \<^verbatim>\<open>/\<close> in the name, is replaced by the entry of the definitions under that name, and by
  \<^verbatim>\<open>{"type": "object"}\<close> when there is none.
\<close>

theorem inline_pydantic_schema_refs_and_defs:
  "(inline_pydantic_schema schema = Inr (root, store) \<longrightarrow> \<not> has_key (deref store root) ''$defs'') \<and>
   (wf_input schema \<longrightarrow>
      (\<exists>root' store' d. inline_pydantic_schema schema = Inr (root', store') \<and>
         deref store' root' = PDict d \<and> \<not> dict_has ''$defs'' d)) \<and>
   (dict_get s ''$ref'' = Some (PStr r) \<and> \<not> startswith r ''#/$defs/'' \<longrightarrow>
      process_schema (PDict s) defs = Inr (fallback_object, PDict s)) \<and>
   (dict_get s ''$ref'' = Some (PStr (''#/$defs/'' @ name)) \<and> CHR ''/'' \<notin> set name \<longrightarrow>
      process_schema (PDict s) defs =
        Inr (case dict_get defs name of Some d \<Rightarrow> d | None \<Rightarrow> fallback_object, PDict s))"
proof (intro conjI impI)
  assume "inline_pydantic_schema schema = Inr (root, store)"
  then show "\<not> has_key (deref store root) ''$defs''" by (rule inline_no_defs)
next
  assume "wf_input schema"
  from inline_returns [OF this] obtain root' store' d where
    r: "inline_pydantic_schema schema = Inr (root', store')" and d: "deref store' root' = PDict d"
    by blast
  from inline_no_defs [OF r] d have "\<not> dict_has ''$defs'' d" by (simp add: has_key_def)
  with r d show "\<exists>root' store' d. inline_pydantic_schema schema = Inr (root', store') \<and>
         deref store' root' = PDict d \<and> \<not> dict_has ''$defs'' d" by blast
next
  assume "dict_get s ''$ref'' = Some (PStr r) \<and> \<not> startswith r ''#/$defs/''"
  then show "process_schema (PDict s) defs = Inr (fallback_object, PDict s)"
    by (simp add: resolve_ref_external)
next
  assume "dict_get s ''$ref'' = Some (PStr (''#/$defs/'' @ name)) \<and> CHR ''/'' \<notin> set name"
  then have g: "dict_get s ''$ref'' = Some (PStr (''#/$defs/'' @ name))"
    and n: "CHR ''/'' \<notin> set name" by blast+
  show "process_schema (PDict s) defs =
        Inr (case dict_get defs name of Some d \<Rightarrow> d | None \<Rightarrow> fallback_object, PDict s)"
    by (simp only: process_schema.simps g option.case resolve_ref_local [OF n] sum.case)
qed

definition nested_models_schema :: pyval where
  "nested_models_schema =
     PDict [(''$defs'', PDict
              [(''Address'', PDict [(''properties'', PDict [(''city'', PDict [(''type'', PStr ''string'')])]),
                                    (''type'', PStr ''object'')]),
               (''Person'', PDict [(''properties'', PDict [(''home'', PDict [(''$ref'', PStr ''#/$defs/Address'')])]),
                                   (''type'', PStr ''object'')])]),
            (''properties'', PDict [(''owner'', PDict [(''$ref'', PStr ''#/$defs/Person'')]),
                                    (''tags'', PDict [(''items'', PDict [(''$ref'', PStr ''http://example.com/tag'')]),
                                                      (''type'', PStr ''array'')])]),
            (''type'', PStr ''object'')]"


theorem inline_pydantic_schema_refs_and_defs_witness:
  "wf_input nested_models_schema \<and>
   (\<exists>root store d. inline_pydantic_schema nested_models_schema = Inr (root, store) \<and>
      deref store root = PDict d \<and> \<not> dict_has ''$defs'' d) \<and>
   dict_get [(''$ref'', PStr ''http://example.com/tag'')] ''$ref'' = Some (PStr ''http://example.com/tag'') \<and>
   \<not> startswith ''http://example.com/tag'' ''#/$defs/'' \<and>
   process_schema (PDict [(''$ref'', PStr ''http://example.com/tag'')]) [] =
     Inr (fallback_object, PDict [(''$ref'', PStr ''http://example.com/tag'')]) \<and>
   CHR ''/'' \<notin> set ''Address'' \<and>
   process_schema (PDict [(''$ref'', PStr ''#/$defs/Address'')]) [(''Address'', PRef ''Address'')] =
     Inr (PRef ''Address'', PDict [(''$ref'', PStr ''#/$defs/Address'')])"
proof -
  have wf: "wf_input nested_models_schema"
    by (simp add: wf_input_def nested_models_schema_def is_dict_def is_str_def)
  have ext: "dict_get [(''$ref'', PStr ''http://example.com/tag'')] ''$ref'' =
      Some (PStr ''http://example.com/tag'') \<and> \<not> startswith ''http://example.com/tag'' ''#/$defs/''"
    by (simp add: startswith_def)
  have loc: "dict_get [(''$ref'', PStr ''#/$defs/Address'')] ''$ref'' =
      Some (PStr (''#/$defs/'' @ ''Address'')) \<and> CHR ''/'' \<notin> set ''Address''"
    by simp
  note inst = inline_pydantic_schema_refs_and_defs
    [of nested_models_schema _ _ "[(''$ref'', PStr ''http://example.com/tag'')]"
        "''http://example.com/tag''" "[]" "''Address''"]
  from inst wf have "\<exists>root store d. inline_pydantic_schema nested_models_schema = Inr (root, store) \<and>
      deref store root = PDict d \<and> \<not> dict_has ''$defs'' d" by blast
  moreover from inst ext have "process_schema (PDict [(''$ref'', PStr ''http://example.com/tag'')]) [] =
     Inr (fallback_object, PDict [(''$ref'', PStr ''http://example.com/tag'')])" by blast
  moreover from inline_pydantic_schema_refs_and_defs
    [of _ _ _ "[(''$ref'', PStr ''#/$defs/Address'')]" _ "[(''Address'', PRef ''Address'')]" "''Address''"] loc
  have "process_schema (PDict [(''$ref'', PStr ''#/$defs/Address'')]) [(''Address'', PRef ''Address'')] =
     Inr (PRef ''Address'', PDict [(''$ref'', PStr ''#/$defs/Address'')])" by simp
  ultimately show ?thesis using wf ext loc by blast
qed

theorem inline_pydantic_schema_counterexample:
  "inline_pydantic_schema (PDict [(''$ref'', PInt 5)]) = Inl AttributeError \<and>
   inline_pydantic_schema
     (PDict [(''$defs'', PDict [(''a/b'', PDict [(''type'', PStr ''string'')])]),
             (''$ref'', PStr ''#/$defs/a/b'')]) =
     Inr (fallback_object, [(''a/b'', PDict [(''type'', PStr ''string'')])])"
  by (simp add: inline_pydantic_schema_def resolve_ref_def def_refs_def remove_defs_def
      py_contains_def deref_def dict_has_def fallback_object_def startswith_def set_opt_def)

section \<open>Type hints\<close>

text \<open>
  \<^verbatim>\<open>get_json_schema\<close> receives a dict from parameter names to type hints, arbitrary Python
  objects. A hint is modelled by what the module observes of it:
  \<^item> \<open>Generic origin type_args\<close>: \<^verbatim>\<open>get_origin\<close> is one of \<^verbatim>\<open>list\<close>, \<^verbatim>\<open>tuple\<close>, \<^verbatim>\<open>set\<close>,
    \<^verbatim>\<open>frozenset\<close>, \<^verbatim>\<open>dict\<close>, \<^verbatim>\<open>typing.Union\<close> or \<^verbatim>\<open>types.UnionType\<close> (the origin of
    \<^verbatim>\<open>X | Y\<close> on Python 3.10 to 3.13), and \<^verbatim>\<open>get_args\<close> is \<open>type_args\<close>;
  \<^item> \<open>NoneType\<close>: the class \<^verbatim>\<open>type(None)\<close>, the only object with \<^verbatim>\<open>arg is type(None)\<close>;
  \<^item> \<open>EnumClass values\<close>: a subclass of \<^verbatim>\<open>Enum\<close> with the values of its members;
  \<^item> \<open>ModelClass r\<close>: a subclass of pydantic's \<^verbatim>\<open>BaseModel\<close>; \<open>r\<close> is what its
    \<^verbatim>\<open>model_json_schema()\<close> does, raise or return a (fresh) value;
  \<^item> \<open>Dataclass fields\<close>: an object with \<^verbatim>\<open>__dataclass_fields__\<close>, the field names with each
    \<^verbatim>\<open>field.type\<close>;
  \<^item> \<open>Named name\<close>: any other object with a \<^verbatim>\<open>__name__\<close> (\<^verbatim>\<open>int\<close>, \<^verbatim>\<open>str\<close>, a plain class);
  \<^item> \<open>Raising e\<close>: a truthy object on which these checks raise, such as a string
    annotation or a \<^verbatim>\<open>ForwardRef\<close>, which have no \<^verbatim>\<open>__name__\<close> (\<^verbatim>\<open>AttributeError\<close>);
  \<^item> \<open>Falsy\<close>: a falsy object such as \<^verbatim>\<open>None\<close> (it has no \<^verbatim>\<open>__name__\<close> either).

  An object whose origin is none of the seven (\<^verbatim>\<open>Literal[...]\<close>, \<^verbatim>\<open>Sequence[int]\<close>) passes
  every origin test and is treated by the code as a plain object: it is one of the last
  five kinds. All seven origins are classes or special forms, and every generic alias
  is truthy. Hints are finite trees.
\<close>

datatype origin = OList | OTuple | OSet | OFrozenset | ODict | OUnion | OUnionType

datatype py_type =
    NoneType
  | Named string
  | Raising py_error
  | Falsy
  | EnumClass "pyval list"
  | ModelClass "py_error + pyval"
  | Dataclass "(string \<times> py_type) list"
  | Generic origin "py_type list"

text \<open>
  \<^verbatim>\<open>typing.get_origin\<close> and \<^verbatim>\<open>typing.get_args\<close>; neither raises.
\<close>

fun get_origin :: "py_type \<Rightarrow> origin option" where
  "get_origin (Generic origin type_args) = Some origin"
| "get_origin _ = None"

fun get_args :: "py_type \<Rightarrow> py_type list" where
  "get_args (Generic origin type_args) = type_args"
| "get_args _ = []"

text \<open>
  \<^verbatim>\<open>is_origin_union_type(origin)\<close>: \<^verbatim>\<open>origin in [Union, UnionType]\<close> from Python 3.10 on,
  \<^verbatim>\<open>origin is Union\<close> before, when no object has the origin \<^verbatim>\<open>UnionType\<close>.
\<close>

definition is_origin_union_type :: "origin \<Rightarrow> bool" where
  "is_origin_union_type origin \<longleftrightarrow> origin \<in> {OUnion, OUnionType}"

definition get_json_type_for_py_type :: "string \<Rightarrow> string" where
  "get_json_type_for_py_type arg =
     (if arg \<in> {''int'', ''float'', ''complex'', ''Decimal''} then ''number''
      else if arg \<in> {''str'', ''string''} then ''string''
      else if arg \<in> {''bool'', ''boolean''} then ''boolean''
      else if arg \<in> {''NoneType'', ''None''} then ''null''
      else if arg \<in> {''list'', ''tuple'', ''set'', ''frozenset''} then ''array''
      else if arg \<in> {''dict'', ''mapping''} then ''object''
      else ''object'')"

text \<open>
  The truth value of a Python value (\<^verbatim>\<open>if schema:\<close>): \<^verbatim>\<open>None\<close>, \<^verbatim>\<open>False\<close>, zero and
  the empty string, list and dict are false.
\<close>

fun py_truthy :: "pyval \<Rightarrow> bool" where
  "py_truthy PNone = False"
| "py_truthy (PBool b) = b"
| "py_truthy (PInt i) = (i \<noteq> 0)"
| "py_truthy (PStr s) = (s \<noteq> [])"
| "py_truthy (PList l) = (l \<noteq> [])"
| "py_truthy (PDict d) = (d \<noteq> [])"
| "py_truthy (PRef n) = True"
| "py_truthy (PGraph st v) = True"

text \<open>
  A schema that comes from \<^verbatim>\<open>inline_pydantic_schema\<close> is carried with its store when it
  holds a reference into it (\<open>with_store\<close>); \<open>has_ref\<close> does not look into a \<open>PGraph\<close>,
  whose references are its own. Such a schema also occurs inside other schemas: as the
  \<^verbatim>\<open>items\<close> of a list, an alternative of a union, a property of a dataclass. So a value
  \<open>v\<close> met inside a value with the store \<open>st\<close> denotes the object \<open>target st v\<close>:
  the root of \<open>v\<close>, looked up in the store of \<open>v\<close> itself when it has one and in
  \<open>st\<close> otherwise. A value \<open>x\<close> read out of \<open>v\<close> keeps the store of \<open>v\<close>
  (\<open>carry\<close>).
\<close>

fun has_ref :: "pyval \<Rightarrow> bool" where
  "has_ref (PRef n) = True"
| "has_ref (PList l) = (\<exists>x \<in> set l. has_ref x)"
| "has_ref (PDict d) = (\<exists>(k, x) \<in> set d. has_ref x)"
| "has_ref _ = False"

fun store_of :: "pyval \<Rightarrow> pydict" where
  "store_of (PGraph st v) = st"
| "store_of v = []"

fun root_of :: "pyval \<Rightarrow> pyval" where
  "root_of (PGraph st v) = v"
| "root_of v = v"

definition with_store :: "pydict \<Rightarrow> pyval \<Rightarrow> pyval" where
  "with_store st v = (if has_ref v then PGraph st v else v)"

definition context_of :: "pydict \<Rightarrow> pyval \<Rightarrow> pydict" where
  "context_of st v = (case v of PGraph st' r \<Rightarrow> st' | _ \<Rightarrow> st)"

definition target :: "pydict \<Rightarrow> pyval \<Rightarrow> pyval" where
  "target st v = deref (context_of st v) (root_of v)"

definition carry :: "pyval \<Rightarrow> pyval \<Rightarrow> pyval" where
  "carry v x = (case v of PGraph st' r \<Rightarrow> with_store st' x | _ \<Rightarrow> x)"

definition schema_truthy :: "pyval \<Rightarrow> bool" where
  "schema_truthy v = py_truthy (target [] v)"

text \<open>
  \<^verbatim>\<open>v[k]\<close> for a string key, and the elements \<^verbatim>\<open>for x in v\<close> iterates, for a value
  \<open>v\<close> met under the store \<open>st\<close>. Subscripting a value that is not a dict by a string
  raises \<^verbatim>\<open>TypeError\<close>, a missing key \<^verbatim>\<open>KeyError\<close>.
\<close>

definition py_getitem :: "pydict \<Rightarrow> pyval \<Rightarrow> string \<Rightarrow> py_error + pyval" where
  "py_getitem st v k =
     (case target st v of
        PDict d \<Rightarrow> (case dict_get d k of Some x \<Rightarrow> Inr (carry v x) | None \<Rightarrow> Inl KeyError)
      | _ \<Rightarrow> Inl TypeError)"

definition py_iter :: "pydict \<Rightarrow> pyval \<Rightarrow> py_error + pyval list" where
  "py_iter st v =
     (case target st v of
        PList l \<Rightarrow> Inr (map (carry v) l)
      | PDict d \<Rightarrow> Inr (map (\<lambda>kv. PStr (fst kv)) d)
      | PStr s \<Rightarrow> Inr (map (\<lambda>c. PStr [c]) s)
      | _ \<Rightarrow> Inl TypeError)"

text \<open>
  A write to the dict \<open>v\<close> (\<^verbatim>\<open>v[k] = x\<close>, \<^verbatim>\<open>v.pop(k)\<close>), where \<open>v\<close> is the root of a
  schema with the store \<open>st\<close>: into the store when \<open>v\<close> is a reference to a shared
  definition object. On a value that is not a dict these raise \<^verbatim>\<open>TypeError\<close>.
\<close>

definition py_update :: "pydict \<Rightarrow> pyval \<Rightarrow> (pydict \<Rightarrow> pydict) \<Rightarrow> py_error + (pydict \<times> pyval)" where
  "py_update st v f =
     (case deref st v of
        PDict d \<Rightarrow>
          (case v of
             PRef n \<Rightarrow> Inr (dict_set st n (PDict (f d)), v)
           | _ \<Rightarrow> Inr (st, PDict (f d)))
      | _ \<Rightarrow> Inl TypeError)"

definition py_setitem :: "pyval \<Rightarrow> string \<Rightarrow> pyval \<Rightarrow> py_error + pyval" where
  "py_setitem obj k x =
     (case py_update (store_of obj) (root_of obj) (\<lambda>d. dict_set d k x) of
        Inl e \<Rightarrow> Inl e
      | Inr (st, v) \<Rightarrow> Inr (with_store st v))"

text \<open>
  \<^verbatim>\<open>any(schema["type"] == "null" for schema in ...)\<close> and
  \<^verbatim>\<open>next(schema["type"] for schema in ... if schema["type"] != "null")\<close>: both stop at the
  first hit, raise what \<^verbatim>\<open>schema["type"]\<close> raises before it, and \<^verbatim>\<open>next\<close> raises
  \<^verbatim>\<open>StopIteration\<close> when there is none. The value read equals \<^verbatim>\<open>"null"\<close> when the
  object it denotes is that string.
\<close>

fun any_null :: "pydict \<Rightarrow> pyval list \<Rightarrow> py_error + bool" where
  "any_null st [] = Inr False"
| "any_null st (schema # rest) =
     (case py_getitem st schema ''type'' of
        Inl e \<Rightarrow> Inl e
      | Inr t \<Rightarrow> if target st t = PStr ''null'' then Inr True else any_null st rest)"

fun first_non_null :: "pydict \<Rightarrow> pyval list \<Rightarrow> py_error + pyval" where
  "first_non_null st [] = Inl StopIteration"
| "first_non_null st (schema # rest) =
     (case py_getitem st schema ''type'' of
        Inl e \<Rightarrow> Inl e
      | Inr t \<Rightarrow> if target st t \<noteq> PStr ''null'' then Inr t else first_non_null st rest)"

text \<open>
  The \<^verbatim>\<open>if\<close> in the loop over the dataclass fields, after \<open>field_schema\<close> is known: a
  truthy schema with an \<^verbatim>\<open>anyOf\<close> that has a null alternative gets the type of its first
  other alternative and loses \<^verbatim>\<open>anyOf\<close>; any other field is required. Returns the field
  schema and whether the field name is appended to \<^verbatim>\<open>required\<close>.
\<close>

definition dataclass_field :: "pyval \<Rightarrow> py_error + (pyval \<times> bool)" where
  "dataclass_field field_schema =
     (let st = store_of field_schema; root = root_of field_schema in
      if \<not> schema_truthy field_schema then Inr (field_schema, True)
      else
        (case py_contains (target st root) ''anyOf'' of
           Inl e \<Rightarrow> Inl e
         | Inr False \<Rightarrow> Inr (field_schema, True)
         | Inr True \<Rightarrow>
        (case py_getitem st root ''anyOf'' of
           Inl e \<Rightarrow> Inl e
         | Inr any_of \<Rightarrow>
        (case py_iter st any_of of
           Inl e \<Rightarrow> Inl e
         | Inr schemas \<Rightarrow>
        (case any_null st schemas of
           Inl e \<Rightarrow> Inl e
         | Inr False \<Rightarrow> Inr (field_schema, True)
         | Inr True \<Rightarrow>
        (case first_non_null st schemas of
           Inl e \<Rightarrow> Inl e
         | Inr t \<Rightarrow>
        (case py_update st root (\<lambda>d. dict_del (dict_set d ''type'' t) ''anyOf'') of
           Inl e \<Rightarrow> Inl e
         | Inr (st', root') \<Rightarrow> Inr (with_store st' root', False))))))))"

text \<open>
  \<^verbatim>\<open>get_json_schema_for_arg(type_hint)\<close>; \<open>PNone\<close> is the result \<^verbatim>\<open>None\<close>. Once the
  origin is none of \<^verbatim>\<open>list\<close>, \<^verbatim>\<open>tuple\<close>, \<^verbatim>\<open>set\<close>, \<^verbatim>\<open>frozenset\<close> and \<^verbatim>\<open>dict\<close> it is
  \<^verbatim>\<open>Union\<close> or \<^verbatim>\<open>UnionType\<close> (lemma \<open>origin_cases\<close>), so the third branch of the source
  is the last one here. \<open>union_types\<close> is the loop of that branch, with its
  \<^verbatim>\<open>try ... except Exception: continue\<close>; \<open>dataclass_fields\<close> is the loop over
  \<^verbatim>\<open>__dataclass_fields__.items()\<close>, carrying \<^verbatim>\<open>properties\<close> and \<^verbatim>\<open>required\<close>; an
  exception in it leaves the function. Python's recursion limit is not modelled.
\<close>

fun get_json_schema_for_arg :: "py_type \<Rightarrow> py_error + pyval"
  and union_types :: "py_type list \<Rightarrow> pyval list"
  and dataclass_fields :: "(string \<times> py_type) list \<Rightarrow> pydict \<Rightarrow> string list \<Rightarrow> py_error + (pydict \<times> string list)"
where
  "get_json_schema_for_arg (Generic origin type_args) =
     (if origin \<in> {OList, OTuple, OSet, OFrozenset} then
        (case type_args of
           [] \<Rightarrow> Inr (PDict [(''type'', PStr ''array''), (''items'', PDict [(''type'', PStr ''string'')])])
         | a # _ \<Rightarrow>
             (case get_json_schema_for_arg a of
                Inl e \<Rightarrow> Inl e
              | Inr json_schema_for_items \<Rightarrow>
                  Inr (PDict [(''type'', PStr ''array''), (''items'', json_schema_for_items)])))
      else if origin = ODict then
        (case (case type_args of
                 [] \<Rightarrow> Inr (PDict [(''type'', PStr ''string'')])
               | a # _ \<Rightarrow> get_json_schema_for_arg a) of
           Inl e \<Rightarrow> Inl e
         | Inr key_schema \<Rightarrow>
        (case (case type_args of
                 _ # b # _ \<Rightarrow> get_json_schema_for_arg b
               | _ \<Rightarrow> Inr (PDict [(''type'', PStr ''string'')])) of
           Inl e \<Rightarrow> Inl e
         | Inr value_schema \<Rightarrow>
             Inr (PDict [(''type'', PStr ''object''), (''propertyNames'', key_schema),
                         (''additionalProperties'', value_schema)])))
      else
        (case union_types type_args of
           [] \<Rightarrow> Inr PNone
         | types \<Rightarrow> Inr (PDict [(''anyOf'', PList types)])))"
| "get_json_schema_for_arg (EnumClass enum_values) =
     Inr (PDict [(''type'', PStr ''string''), (''enum'', PList enum_values)])"
| "get_json_schema_for_arg (ModelClass model_json_schema) =
     (case model_json_schema of
        Inl e \<Rightarrow> Inl e
      | Inr schema \<Rightarrow>
          (case inline_pydantic_schema schema of
             Inl e \<Rightarrow> Inl e
           | Inr (root, store) \<Rightarrow> Inr (with_store store root)))"
| "get_json_schema_for_arg (Dataclass dataclass_fields_items) =
     (case dataclass_fields dataclass_fields_items [] [] of
        Inl e \<Rightarrow> Inl e
      | Inr (properties, required) \<Rightarrow>
          Inr (PDict ([(''type'', PStr ''object''), (''properties'', PDict properties),
                       (''additionalProperties'', PBool False)] @
                      (if required \<noteq> [] then [(''required'', PList (map PStr required))] else []))))"
| "get_json_schema_for_arg (Named name) =
     (let t = get_json_type_for_py_type name in
      if t = ''object'' then
        Inr (PDict [(''type'', PStr t), (''properties'', PDict []), (''additionalProperties'', PBool False)])
      else Inr (PDict [(''type'', PStr t)]))"
| "get_json_schema_for_arg NoneType = Inr (PDict [(''type'', PStr (get_json_type_for_py_type ''NoneType''))])"
| "get_json_schema_for_arg (Raising e) = Inl e"
| "get_json_schema_for_arg Falsy = Inl AttributeError"
| "union_types [] = []"
| "union_types (arg # rest) =
     (case get_json_schema_for_arg arg of
        Inl e \<Rightarrow> union_types rest
      | Inr schema \<Rightarrow> if schema_truthy schema then schema # union_types rest else union_types rest)"
| "dataclass_fields [] properties required = Inr (properties, required)"
| "dataclass_fields ((field_name, field_type) # rest) properties required =
     (case get_json_schema_for_arg field_type of
        Inl e \<Rightarrow> Inl e
      | Inr field_schema \<Rightarrow>
          (case dataclass_field field_schema of
             Inl e \<Rightarrow> Inl e
           | Inr (field_schema', is_required) \<Rightarrow>
               dataclass_fields rest
                 (if schema_truthy field_schema' then dict_set properties field_name field_schema'
                  else properties)
                 (if is_required then required @ [field_name] else required)))"


text \<open>
  The body of the loop of \<^verbatim>\<open>get_json_schema\<close>. \<open>is_optional\<close> is the test
  \<^verbatim>\<open>type_origin is Union and len(type_args) == 2 and any(arg is type(None) for arg in
  type_args)\<close>; \<open>optional_arg\<close> is \<^verbatim>\<open>next(arg for arg in type_args if arg is not
  type(None))\<close>; \<open>hint_truthy\<close> is \<^verbatim>\<open>if type_hint:\<close>; \<open>description_of\<close> is the
  description to add, if \<^verbatim>\<open>param_descriptions and parameter_name in param_descriptions
  and param_descriptions[parameter_name]\<close>; \<open>is_none\<close> is \<^verbatim>\<open>arg_json_schema is None\<close>.
  \<open>parameter_schema\<close> is the body of the \<^verbatim>\<open>try\<close> up to the schema to store, \<open>PNone\<close>
  when nothing is stored.
\<close>

definition is_optional :: "py_type \<Rightarrow> bool" where
  "is_optional type_hint \<longleftrightarrow>
     get_origin type_hint = Some OUnion \<and> length (get_args type_hint) = 2 \<and>
     NoneType \<in> set (get_args type_hint)"

definition optional_arg :: "py_type list \<Rightarrow> py_error + py_type" where
  "optional_arg type_args =
     (case filter (\<lambda>arg. arg \<noteq> NoneType) type_args of
        [] \<Rightarrow> Inl StopIteration
      | arg # _ \<Rightarrow> Inr arg)"

fun hint_truthy :: "py_type \<Rightarrow> bool" where
  "hint_truthy Falsy = False"
| "hint_truthy _ = True"

definition description_of :: "(string \<times> string) list option \<Rightarrow> string \<Rightarrow> string option" where
  "description_of param_descriptions parameter_name =
     (case param_descriptions of
        None \<Rightarrow> None
      | Some ds \<Rightarrow>
          (case dict_get ds parameter_name of
             None \<Rightarrow> None
           | Some d \<Rightarrow> if d \<noteq> [] then Some d else None))"

definition is_none :: "pyval \<Rightarrow> bool" where
  "is_none v \<longleftrightarrow> target [] v = PNone"

definition parameter_schema ::
  "string \<Rightarrow> py_type \<Rightarrow> (string \<times> string) list option \<Rightarrow> py_error + pyval" where
  "parameter_schema parameter_name type_hint param_descriptions =
     (case (if is_optional type_hint then optional_arg (get_args type_hint) else Inr type_hint) of
        Inl e \<Rightarrow> Inl e
      | Inr type_hint' \<Rightarrow>
     (case (if hint_truthy type_hint' then get_json_schema_for_arg type_hint' else Inr (PDict [])) of
        Inl e \<Rightarrow> Inl e
      | Inr arg_json_schema \<Rightarrow>
          if \<not> is_none arg_json_schema then
            (case description_of param_descriptions parameter_name of
               Some d \<Rightarrow> py_setitem arg_json_schema ''description'' (PStr d)
             | None \<Rightarrow> Inr arg_json_schema)
          else Inr PNone))"

text \<open>
  The loop of \<^verbatim>\<open>get_json_schema\<close> over \<^verbatim>\<open>type_hints.items()\<close>, carrying
  \<^verbatim>\<open>json_schema["properties"]\<close>: \<^verbatim>\<open>"return"\<close> is skipped, and so is a parameter whose
  body raises (\<^verbatim>\<open>except Exception ... continue\<close>) or yields \<^verbatim>\<open>None\<close>.
\<close>

fun schema_properties ::
  "(string \<times> py_type) list \<Rightarrow> (string \<times> string) list option \<Rightarrow> pydict \<Rightarrow> pydict" where
  "schema_properties [] param_descriptions properties = properties"
| "schema_properties ((parameter_name, type_hint) # rest) param_descriptions properties =
     (if parameter_name = ''return'' then schema_properties rest param_descriptions properties
      else
        (case parameter_schema parameter_name type_hint param_descriptions of
           Inl e \<Rightarrow> schema_properties rest param_descriptions properties
         | Inr arg_json_schema \<Rightarrow>
             if is_none arg_json_schema then schema_properties rest param_descriptions properties
             else schema_properties rest param_descriptions
                    (dict_set properties parameter_name arg_json_schema)))"

definition get_json_schema ::
  "(string \<times> py_type) list \<Rightarrow> (string \<times> string) list option \<Rightarrow> bool \<Rightarrow> pyval" where
  "get_json_schema type_hints param_descriptions strict =
     PDict ([(''type'', PStr ''object''),
             (''properties'', PDict (schema_properties type_hints param_descriptions []))] @
            (if strict then [(''additionalProperties'', PBool False)] else []))"

text \<open>
  The origins, and the keys of the properties.
\<close>

lemma origin_cases:
  "origin \<in> {OList, OTuple, OSet, OFrozenset} \<or> origin = ODict \<or> is_origin_union_type origin"
  by (cases origin) (simp_all add: is_origin_union_type_def)

lemma dict_keys_dict_set:
  "dict_keys (dict_set d k v) = (if k \<in> set (dict_keys d) then dict_keys d else dict_keys d @ [k])"
  by (induction d) (force simp: dict_keys_def)+

lemma dict_keys_set: "set (dict_keys (dict_set d k v)) = insert k (set (dict_keys d))"
  by (auto simp: dict_keys_dict_set)

lemma schema_properties_keys:
  "set (dict_keys (schema_properties type_hints pd properties)) \<subseteq>
     set (dict_keys properties) \<union> (set (dict_keys type_hints) - {''return''})"
proof (induction type_hints pd properties rule: schema_properties.induct)
  case (1 pd properties)
  show ?case by simp
next
  case (2 parameter_name type_hint rest pd properties)
  then show ?case
    by (auto simp: dict_keys_set split: sum.splits if_splits) (auto simp: dict_keys_def)
qed

lemma schema_properties_skip:
  assumes "parameter_schema p t pd = Inl e"
  shows "schema_properties (xs @ (p, t) # ys) pd properties = schema_properties (xs @ ys) pd properties"
  using assms
  by (induction xs pd properties rule: schema_properties.induct) (auto split: sum.splits)


lemma schema_properties_cong:
  assumes "parameter_schema p t pd = parameter_schema p t' pd"
  shows "schema_properties (xs @ (p, t) # ys) pd properties =
         schema_properties (xs @ (p, t') # ys) pd properties"
  using assms
  by (induction xs pd properties rule: schema_properties.induct) (auto split: sum.splits)

lemma parameter_schema_optional:
  assumes "T \<noteq> NoneType" and "\<not> is_optional T"
  shows "parameter_schema p (Generic OUnion [T, NoneType]) pd = parameter_schema p T pd"
    and "parameter_schema p (Generic OUnion [NoneType, T]) pd = parameter_schema p T pd"
proof -
  have o: "is_optional (Generic OUnion [T, NoneType])" "is_optional (Generic OUnion [NoneType, T])"
    by (simp_all add: is_optional_def)
  have a: "optional_arg [T, NoneType] = Inr T" "optional_arg [NoneType, T] = Inr T"
    using assms(1) by (simp_all add: optional_arg_def)
  show "parameter_schema p (Generic OUnion [T, NoneType]) pd = parameter_schema p T pd"
    by (simp add: parameter_schema_def o a assms(2))
  show "parameter_schema p (Generic OUnion [NoneType, T]) pd = parameter_schema p T pd"
    by (simp add: parameter_schema_def o a assms(2))
qed

lemma parameter_schema_plain:
  assumes "\<not> is_optional T" and "hint_truthy T"
  shows "parameter_schema p T None =
         (case get_json_schema_for_arg T of
            Inl e \<Rightarrow> Inl e
          | Inr a \<Rightarrow> Inr (if is_none a then PNone else a))"
  using assms by (simp add: parameter_schema_def description_of_def split: sum.splits)

text \<open>
  Claim C8. For every dict of type hints, every dict of descriptions and both values of
  \<^verbatim>\<open>strict\<close>, \<^verbatim>\<open>get_json_schema\<close> returns a dict with \<^verbatim>\<open>"type": "object"\<close> and a
  \<^verbatim>\<open>"properties"\<close> dict whose keys are keys of the input other than \<^verbatim>\<open>"return"\<close>. (It
  cannot raise: the whole body of its loop is inside \<^verbatim>\<open>try ... except Exception\<close>, which
  the model renders by the case split on \<open>parameter_schema\<close>.) When the processing of one
  parameter raises, the result is the result for the input without that parameter: the
  parameter is omitted and every other property is what it would be without it.
\<close>

theorem get_json_schema_object_properties:
  "(\<exists>props. get_json_schema type_hints pd strict =
       PDict ([(''type'', PStr ''object''), (''properties'', PDict props)] @
              (if strict then [(''additionalProperties'', PBool False)] else [])) \<and>
     set (dict_keys props) \<subseteq> set (dict_keys type_hints) - {''return''}) \<and>
   (parameter_schema p t pd = Inl e \<longrightarrow>
      get_json_schema (xs @ (p, t) # ys) pd strict = get_json_schema (xs @ ys) pd strict \<and>
      (p \<notin> set (dict_keys (xs @ ys)) \<longrightarrow>
         p \<notin> set (dict_keys (schema_properties (xs @ (p, t) # ys) pd []))))"
proof (intro conjI impI)
  show "\<exists>props. get_json_schema type_hints pd strict =
       PDict ([(''type'', PStr ''object''), (''properties'', PDict props)] @
              (if strict then [(''additionalProperties'', PBool False)] else [])) \<and>
     set (dict_keys props) \<subseteq> set (dict_keys type_hints) - {''return''}"
    using schema_properties_keys [of type_hints pd "[]"]
    by (simp add: get_json_schema_def dict_keys_def)
next
  assume "parameter_schema p t pd = Inl e"
  then show "get_json_schema (xs @ (p, t) # ys) pd strict = get_json_schema (xs @ ys) pd strict"
    by (simp add: get_json_schema_def schema_properties_skip)
next
  assume fails: "parameter_schema p t pd = Inl e" and fresh: "p \<notin> set (dict_keys (xs @ ys))"
  from schema_properties_keys [of "xs @ ys" pd "[]"] fresh
  have "p \<notin> set (dict_keys (schema_properties (xs @ ys) pd []))"
    by (auto simp: dict_keys_def)
  with fails show "p \<notin> set (dict_keys (schema_properties (xs @ (p, t) # ys) pd []))"
    by (simp add: schema_properties_skip)
qed

theorem get_json_schema_object_properties_witness:
  "parameter_schema ''callback'' (Raising AttributeError) None = Inl AttributeError \<and>
   ''callback'' \<notin> set (dict_keys ([(''count'', Named ''int'')] @ [(''return'', Named ''str'')])) \<and>
   get_json_schema ([(''count'', Named ''int'')] @ (''callback'', Raising AttributeError) #
                    [(''return'', Named ''str'')]) None True =
     PDict [(''type'', PStr ''object''),
            (''properties'', PDict [(''count'', PDict [(''type'', PStr ''number'')])]),
            (''additionalProperties'', PBool False)] \<and>
   ''callback'' \<notin> set (dict_keys (schema_properties
       ([(''count'', Named ''int'')] @ (''callback'', Raising AttributeError) #
        [(''return'', Named ''str'')]) None []))"
proof -
  have fails: "parameter_schema ''callback'' (Raising AttributeError) None = Inl AttributeError"
    by (simp add: parameter_schema_def is_optional_def)
  have fresh: "''callback'' \<notin> set (dict_keys ([(''count'', Named ''int'')] @ [(''return'', Named ''str'')]))"
    by (simp add: dict_keys_def)
  have without: "get_json_schema ([(''count'', Named ''int'')] @ [(''return'', Named ''str'')]) None True =
     PDict [(''type'', PStr ''object''),
            (''properties'', PDict [(''count'', PDict [(''type'', PStr ''number'')])]),
            (''additionalProperties'', PBool False)]"
    by (simp add: get_json_schema_def parameter_schema_def is_optional_def
        get_json_type_for_py_type_def description_of_def is_none_def deref_def target_def context_of_def)
  from get_json_schema_object_properties
    [of _ None True "''callback''" "Raising AttributeError" AttributeError
        "[(''count'', Named ''int'')]" "[(''return'', Named ''str'')]"] fails fresh without
  show ?thesis by simp
qed

text \<open>
  Claim C9. \<^verbatim>\<open>Optional[T]\<close> is \<^verbatim>\<open>typing.Union[T, None]\<close>: its origin is \<^verbatim>\<open>typing.Union\<close> and
  its two arguments are \<open>T\<close> and \<^verbatim>\<open>type(None)\<close>, in either order. Python builds no such
  union with \<open>T\<close> being \<^verbatim>\<open>type(None)\<close> (duplicates collapse) or with \<open>T\<close> itself an
  \<^verbatim>\<open>Optional\<close> (nested unions are flattened), which are the two hypotheses. For such a
  parameter \<^verbatim>\<open>get_json_schema\<close> produces exactly what it produces for the same parameter
  annotated \<open>T\<close>: the same property schema, hence the same result; without a description
  that schema is \<^verbatim>\<open>get_json_schema_for_arg(T)\<close>.
\<close>

theorem get_json_schema_optional_unwrapped:
  "T \<noteq> NoneType \<and> \<not> is_optional T \<longrightarrow>
     parameter_schema p (Generic OUnion [T, NoneType]) pd = parameter_schema p T pd \<and>
     parameter_schema p (Generic OUnion [NoneType, T]) pd = parameter_schema p T pd \<and>
     get_json_schema (xs @ (p, Generic OUnion [T, NoneType]) # ys) pd strict =
       get_json_schema (xs @ (p, T) # ys) pd strict \<and>
     get_json_schema (xs @ (p, Generic OUnion [NoneType, T]) # ys) pd strict =
       get_json_schema (xs @ (p, T) # ys) pd strict \<and>
     (hint_truthy T \<longrightarrow>
        parameter_schema p (Generic OUnion [T, NoneType]) None =
          (case get_json_schema_for_arg T of
             Inl e \<Rightarrow> Inl e
           | Inr a \<Rightarrow> Inr (if is_none a then PNone else a)))"
proof (intro impI)
  assume "T \<noteq> NoneType \<and> \<not> is_optional T"
  then have T: "T \<noteq> NoneType" "\<not> is_optional T" by simp_all
  note eq = parameter_schema_optional [OF T]
  have "get_json_schema (xs @ (p, Generic OUnion [T, NoneType]) # ys) pd strict =
       get_json_schema (xs @ (p, T) # ys) pd strict"
    unfolding get_json_schema_def using schema_properties_cong [OF eq(1)] by simp
  moreover have "get_json_schema (xs @ (p, Generic OUnion [NoneType, T]) # ys) pd strict =
       get_json_schema (xs @ (p, T) # ys) pd strict"
    unfolding get_json_schema_def using schema_properties_cong [OF eq(2)] by simp
  moreover have "hint_truthy T \<longrightarrow>
        parameter_schema p (Generic OUnion [T, NoneType]) None =
          (case get_json_schema_for_arg T of
             Inl e \<Rightarrow> Inl e
           | Inr a \<Rightarrow> Inr (if is_none a then PNone else a))"
    using eq(1) [of p None] parameter_schema_plain [OF T(2), of p] by simp
  ultimately show "parameter_schema p (Generic OUnion [T, NoneType]) pd = parameter_schema p T pd \<and>
     parameter_schema p (Generic OUnion [NoneType, T]) pd = parameter_schema p T pd \<and>
     get_json_schema (xs @ (p, Generic OUnion [T, NoneType]) # ys) pd strict =
       get_json_schema (xs @ (p, T) # ys) pd strict \<and>
     get_json_schema (xs @ (p, Generic OUnion [NoneType, T]) # ys) pd strict =
       get_json_schema (xs @ (p, T) # ys) pd strict \<and>
     (hint_truthy T \<longrightarrow>
        parameter_schema p (Generic OUnion [T, NoneType]) None =
          (case get_json_schema_for_arg T of
             Inl e \<Rightarrow> Inl e
           | Inr a \<Rightarrow> Inr (if is_none a then PNone else a)))"
    using eq by simp
qed

theorem get_json_schema_optional_unwrapped_witness:
  "Generic OList [Named ''str''] \<noteq> NoneType \<and> \<not> is_optional (Generic OList [Named ''str'']) \<and>
   get_json_schema ([(''n'', Named ''int'')] @
       (''tags'', Generic OUnion [Generic OList [Named ''str''], NoneType]) # []) None False =
     get_json_schema ([(''n'', Named ''int'')] @ (''tags'', Generic OList [Named ''str'']) # []) None False \<and>
   get_json_schema ([(''n'', Named ''int'')] @ (''tags'', Generic OList [Named ''str'']) # []) None False =
     PDict [(''type'', PStr ''object''),
            (''properties'', PDict [(''n'', PDict [(''type'', PStr ''number'')]),
               (''tags'', PDict [(''type'', PStr ''array''), (''items'', PDict [(''type'', PStr ''string'')])])])] \<and>
   parameter_schema ''tags'' (Generic OUnion [Generic OList [Named ''str''], NoneType]) None =
     Inr (PDict [(''type'', PStr ''array''), (''items'', PDict [(''type'', PStr ''string'')])])"
proof -
  have hyp: "Generic OList [Named ''str''] \<noteq> NoneType \<and> \<not> is_optional (Generic OList [Named ''str''])"
    by (simp add: is_optional_def)
  note inst = get_json_schema_optional_unwrapped
    [of "Generic OList [Named ''str'']" "''tags''" None "[(''n'', Named ''int'')]" "[]" False]
  from inst hyp have same: "get_json_schema ([(''n'', Named ''int'')] @
       (''tags'', Generic OUnion [Generic OList [Named ''str''], NoneType]) # []) None False =
     get_json_schema ([(''n'', Named ''int'')] @ (''tags'', Generic OList [Named ''str'']) # []) None False"
    by blast
  have plain: "get_json_schema ([(''n'', Named ''int'')] @ (''tags'', Generic OList [Named ''str'']) # []) None False =
     PDict [(''type'', PStr ''object''),
            (''properties'', PDict [(''n'', PDict [(''type'', PStr ''number'')]),
               (''tags'', PDict [(''type'', PStr ''array''), (''items'', PDict [(''type'', PStr ''string'')])])])]"
    by (simp add: get_json_schema_def parameter_schema_def is_optional_def
        get_json_type_for_py_type_def description_of_def is_none_def deref_def target_def context_of_def)
  from inst hyp have "parameter_schema ''tags'' (Generic OUnion [Generic OList [Named ''str''], NoneType]) None =
      parameter_schema ''tags'' (Generic OList [Named ''str'']) None"
    by blast
  also have "\<dots> = Inr (PDict [(''type'', PStr ''array''), (''items'', PDict [(''type'', PStr ''string'')])])"
    by (simp add: parameter_schema_def is_optional_def get_json_type_for_py_type_def
        description_of_def is_none_def deref_def target_def context_of_def)
  finally show ?thesis using hyp same plain by blast
qed

text \<open>
  A union written \<^verbatim>\<open>T | None\<close> has the origin \<^verbatim>\<open>types.UnionType\<close> on Python 3.10 to
  3.13. It fails the test \<^verbatim>\<open>type_origin is Union\<close> and keeps its null alternative.
\<close>

lemma pep604_union_not_unwrapped:
  "parameter_schema ''x'' (Generic OUnionType [Named ''int'', NoneType]) None =
     Inr (PDict [(''anyOf'', PList [PDict [(''type'', PStr ''number'')], PDict [(''type'', PStr ''null'')]])])"
  by (simp add: parameter_schema_def is_optional_def get_json_type_for_py_type_def
      description_of_def is_none_def deref_def schema_truthy_def target_def context_of_def)

section \<open>Session store adapter\<close>

text \<open>
  The store (\<^verbatim>\<open>agno.db.postgres.PostgresDb\<close> and its siblings) is not among the sources;
  only its integration tests are. The definitions of this section follow the spec's
  sections 3 (Session) and 4.5 (Session Store Adapter).
\<close>

text \<open>
  Modelled from the spec: the \<^verbatim>\<open>session_type\<close> argument of \<^verbatim>\<open>get_session\<close> and
  \<^verbatim>\<open>get_sessions\<close> (\<^verbatim>\<open>agno.db.base.SessionType\<close> is missing); the components that own
  sessions are agents, teams and workflows.
\<close>

datatype session_type = AGENT | TEAM | WORKFLOW

text \<open>
  Modelled from the spec: the Session record of section 3 (\<^verbatim>\<open>agno.session\<close> is
  missing): "keyed by \<^verbatim>\<open>session_id\<close>, holding \<^verbatim>\<open>user_id\<close>, owning component id, a
  sequence of RunOutput summaries (\<^verbatim>\<open>runs\<close>), free-form
  \<^verbatim>\<open>session_data\<close>/\<^verbatim>\<open>metadata\<close>/component-specific data maps, \<^verbatim>\<open>summary\<close>,
  \<^verbatim>\<open>created_at\<close>, \<^verbatim>\<open>updated_at\<close>". A run summary is represented by its run id, a
  free-form map by an association list of strings. A store is the list of its rows.
\<close>

record session =
  session_id :: string
  session_type :: session_type
  user_id :: "string option"
  component_id :: "string option"
  session_data :: "(string \<times> string) list"
  metadata :: "(string \<times> string) list"
  component_data :: "(string \<times> string) list"
  runs :: "string list"
  summary :: "string option"
  created_at :: int
  updated_at :: int

type_synonym session_store = "session list"

text \<open>
  Modelled from the spec: what \<^verbatim>\<open>upsert_session\<close> (missing) writes on an existing row,
  "a full merge of mutable fields (session_data, metadata, component-specific data,
  latest runs)"; by the design notes the tests show full replacement of each field.
\<close>

definition merge_session :: "session \<Rightarrow> session \<Rightarrow> session" where
  "merge_session row s =
     row\<lparr>session_data := session_data s, metadata := metadata s,
         component_data := component_data s, runs := runs s\<rparr>"

text \<open>
  Modelled from the spec: whether a row with this \<^verbatim>\<open>session_id\<close> exists in the store
  (the lookup inside the missing \<^verbatim>\<open>upsert_session\<close>).
\<close>

definition has_session :: "string \<Rightarrow> session_store \<Rightarrow> bool" where
  "has_session sid store \<longleftrightarrow> sid \<in> set (map session_id store)"

text \<open>
  Modelled from the spec: \<^verbatim>\<open>upsert_session(session)\<close> of section 4.5 (missing): a new
  \<^verbatim>\<open>session_id\<close> adds a row; "re-upserting the same \<^verbatim>\<open>session_id\<close> merges/overwrites
  rather than duplicating".
\<close>

definition upsert_session :: "session \<Rightarrow> session_store \<Rightarrow> session_store" where
  "upsert_session s store =
     (if has_session (session_id s) store
      then map (\<lambda>row. if session_id row = session_id s then merge_session row s else row) store
      else store @ [s])"

text \<open>
  Modelled from the spec: \<^verbatim>\<open>rename_session(session_id, session_type, new_name)\<close>
  (missing): the name field becomes the new name and all other fields are unchanged;
  the tests read the name as \<^verbatim>\<open>session_data["session_name"]\<close>.
\<close>

definition rename_session :: "string \<Rightarrow> session_type \<Rightarrow> string \<Rightarrow> session_store \<Rightarrow> session_store" where
  "rename_session sid stype new_name store =
     map (\<lambda>row. if session_id row = sid \<and> session_type row = stype
                 then row\<lparr>session_data := dict_set (session_data row) ''session_name'' new_name\<rparr>
                 else row) store"

text \<open>
  Modelled from the spec: \<^verbatim>\<open>delete_session(session_id)\<close> (missing), "deleted explicitly
  by id".
\<close>

definition delete_session :: "string \<Rightarrow> session_store \<Rightarrow> session_store" where
  "delete_session sid store = filter (\<lambda>row. session_id row \<noteq> sid) store"

text \<open>
  Modelled from the spec: \<^verbatim>\<open>delete_sessions(session_ids)\<close> (missing), deletion "in
  bulk".
\<close>

definition delete_sessions :: "string list \<Rightarrow> session_store \<Rightarrow> session_store" where
  "delete_sessions sids store = filter (\<lambda>row. session_id row \<notin> set sids) store"

text \<open>
  Modelled from the spec: the operations of section 4.5 that change the store, and a
  store as what a sequence of them leaves of the empty store.
\<close>

datatype store_op =
    Upsert session
  | Rename string session_type string
  | Delete string
  | DeleteMany "string list"

fun apply_op :: "store_op \<Rightarrow> session_store \<Rightarrow> session_store" where
  "apply_op (Upsert s) store = upsert_session s store"
| "apply_op (Rename sid stype new_name) store = rename_session sid stype new_name store"
| "apply_op (Delete sid) store = delete_session sid store"
| "apply_op (DeleteMany sids) store = delete_sessions sids store"

fun run_ops :: "store_op list \<Rightarrow> session_store \<Rightarrow> session_store" where
  "run_ops [] store = store"
| "run_ops (op # ops) store = run_ops ops (apply_op op store)"

text \<open>
  Modelled from the spec: "\<^verbatim>\<open>session_id\<close> is globally unique within a store".
\<close>

definition unique_ids :: "session_store \<Rightarrow> bool" where
  "unique_ids store \<longleftrightarrow> distinct (map session_id store)"

lemma session_id_merge [simp]: "session_id (merge_session row s) = session_id row"
  by (simp add: merge_session_def)

lemma upsert_existing_ids:
  "has_session (session_id s) store \<Longrightarrow> map session_id (upsert_session s store) = map session_id store"
  by (induction store) (auto simp: upsert_session_def has_session_def)

lemma upsert_unique: "unique_ids store \<Longrightarrow> unique_ids (upsert_session s store)"
proof (cases "has_session (session_id s) store")
  case True
  assume "unique_ids store"
  with upsert_existing_ids [OF True] show ?thesis by (simp add: unique_ids_def)
next
  case False
  assume "unique_ids store"
  with False show ?thesis by (simp add: unique_ids_def upsert_session_def has_session_def)
qed

lemma rename_ids: "map session_id (rename_session sid stype n store) = map session_id store"
  by (induction store) (auto simp: rename_session_def)

lemma apply_op_unique: "unique_ids store \<Longrightarrow> unique_ids (apply_op op store)"
proof (cases op)
  case (Upsert s)
  assume "unique_ids store"
  then show ?thesis by (simp add: Upsert upsert_unique)
next
  case (Rename sid stype n)
  assume "unique_ids store"
  then show ?thesis by (simp add: Rename unique_ids_def rename_ids)
next
  case (Delete sid)
  assume "unique_ids store"
  then show ?thesis by (simp add: Delete unique_ids_def delete_session_def distinct_map_filter)
next
  case (DeleteMany sids)
  assume "unique_ids store"
  then show ?thesis by (simp add: DeleteMany unique_ids_def delete_sessions_def distinct_map_filter)
qed

lemma run_ops_unique: "unique_ids store \<Longrightarrow> unique_ids (run_ops ops store)"
  by (induction ops arbitrary: store) (auto simp: apply_op_unique)

lemma upsert_existing_fields:
  assumes "row \<in> set (upsert_session s store)" and "session_id row = session_id s"
    and "has_session (session_id s) store"
  shows "session_data row = session_data s \<and> metadata row = metadata s \<and>
         component_data row = component_data s \<and> runs row = runs s"
  using assms by (auto simp: upsert_session_def merge_session_def)

lemma merge_other_rows:
  "filter (\<lambda>row. session_id row \<noteq> sid)
     (map (\<lambda>row. if session_id row = sid then merge_session row s else row) store) =
   filter (\<lambda>row. session_id row \<noteq> sid) store"
  by (induction store) auto

lemma upsert_other_rows:
  assumes "has_session (session_id s) store"
  shows "filter (\<lambda>row. session_id row \<noteq> session_id s) (upsert_session s store) =
         filter (\<lambda>row. session_id row \<noteq> session_id s) store"
  using assms by (simp add: upsert_session_def merge_other_rows)


text \<open>
  Modelled from the spec: the \<^verbatim>\<open>sort_by\<close> and \<^verbatim>\<open>sort_order\<close> arguments of
  \<^verbatim>\<open>get_sessions\<close> (missing); the tests sort by \<^verbatim>\<open>created_at\<close>, ascending and
  descending.
\<close>

datatype sort_field = ByCreatedAt | ByUpdatedAt

datatype sort_order = Asc | Desc

fun sort_value :: "sort_field \<Rightarrow> session \<Rightarrow> int" where
  "sort_value ByCreatedAt row = created_at row"
| "sort_value ByUpdatedAt row = updated_at row"

text \<open>
  Modelled from the spec: sorting is "stable ... for a fixed sort key": rows with equal
  keys keep their order in the store (\<open>sort_key\<close> is insertion sort, which is stable).
\<close>

definition sort_sessions :: "sort_field \<Rightarrow> sort_order \<Rightarrow> session list \<Rightarrow> session list" where
  "sort_sessions sort_by ord rows =
     (case ord of
        Asc \<Rightarrow> sort_key (sort_value sort_by) rows
      | Desc \<Rightarrow> sort_key (\<lambda>row. - sort_value sort_by row) rows)"

text \<open>
  Modelled from the spec: \<^verbatim>\<open>get_sessions(session_type, filters...) -> (list[Session],
  total_count)\<close> (missing) with "pagination (\<^verbatim>\<open>limit\<close>, \<^verbatim>\<open>page\<close>) and sorting
  (\<^verbatim>\<open>sort_by\<close>, \<^verbatim>\<open>sort_order\<close>)": the rows of the type, sorted, and of them the page
  \<open>page\<close> of \<open>limit\<close> rows; pages count from 1.
\<close>

definition get_sessions ::
  "session_type \<Rightarrow> sort_field \<Rightarrow> sort_order \<Rightarrow> nat option \<Rightarrow> nat \<Rightarrow> session_store \<Rightarrow>
   session list \<times> nat" where
  "get_sessions stype sort_by ord limit page store =
     (let rows = filter (\<lambda>row. session_type row = stype) store;
          sorted = sort_sessions sort_by ord rows
      in (case limit of
            None \<Rightarrow> sorted
          | Some n \<Rightarrow> take n (drop ((page - 1) * n) sorted),
          length rows))"

text \<open>
  Modelled from the spec: the session ids of one page of \<open>limit\<close> rows, in order.
\<close>

definition page_ids ::
  "session_type \<Rightarrow> sort_field \<Rightarrow> sort_order \<Rightarrow> nat \<Rightarrow> nat \<Rightarrow> session_store \<Rightarrow> string list" where
  "page_ids stype sort_by ord n page store =
     map session_id (fst (get_sessions stype sort_by ord (Some n) page store))"

lemma sort_sessions_ids:
  "distinct (map session_id rows) \<Longrightarrow> distinct (map session_id (sort_sessions sort_by ord rows))"
  by (cases ord) (simp_all add: sort_sessions_def distinct_map)

lemma length_sort_sessions: "length (sort_sessions sort_by ord rows) = length rows"
  by (cases ord) (simp_all add: sort_sessions_def)

lemma set_sort_sessions: "set (sort_sessions sort_by ord rows) = set rows"
  by (cases ord) (simp_all add: sort_sessions_def)

lemma sorted_ids:
  assumes "unique_ids store"
  shows "distinct (map session_id (sort_sessions sort_by ord (filter (\<lambda>row. session_type row = stype) store)))"
  using assms by (simp add: unique_ids_def sort_sessions_ids distinct_map_filter)

lemma windows_disjoint:
  assumes "distinct zs" and "a + n \<le> b"
  shows "set (take n (drop a zs)) \<inter> set (take m (drop b zs)) = {}"
proof -
  have "take n (drop a zs) = drop a (take (a + n) zs)"
    by (simp add: drop_take)
  then have "set (take n (drop a zs)) \<subseteq> set (take (a + n) zs)"
    by (simp add: set_drop_subset)
  moreover have "set (take m (drop b zs)) \<subseteq> set (drop b zs)"
    by (rule set_take_subset)
  moreover from assms have "set (take (a + n) zs) \<inter> set (drop b zs) = {}"
    by (rule set_take_disj_set_drop_if_distinct)
  ultimately show ?thesis by blast
qed

lemma page_ids_alt:
  "page_ids stype sort_by ord n page store =
     take n (drop ((page - 1) * n)
       (map session_id (sort_sessions sort_by ord (filter (\<lambda>row. session_type row = stype) store))))"
  by (simp add: page_ids_def get_sessions_def Let_def take_map drop_map)

lemma pages_disjoint:
  assumes "unique_ids store" and "1 \<le> p" and "p < q"
  shows "set (page_ids stype sort_by ord n p store) \<inter> set (page_ids stype sort_by ord n q store) = {}"
proof -
  from assms(2) have "(p - 1) * n + n = p * n"
    by (cases p) simp_all
  moreover from assms(3) have "p \<le> q - 1" by simp
  then have "p * n \<le> (q - 1) * n" by (rule mult_le_mono1)
  ultimately have "(p - 1) * n + n \<le> (q - 1) * n" by simp
  with sorted_ids [OF assms(1)] show ?thesis
    unfolding page_ids_alt by (rule windows_disjoint)
qed

lemma two_pages_of_five:
  assumes "unique_ids store" and "length (filter (\<lambda>row. session_type row = stype) store) = 5"
  shows "card (set (page_ids stype sort_by ord 2 1 store) \<union> set (page_ids stype sort_by ord 2 2 store)) = 4"
proof -
  let ?zs = "map session_id (sort_sessions sort_by ord (filter (\<lambda>row. session_type row = stype) store))"
  have d: "distinct ?zs" using assms(1) by (rule sorted_ids)
  have len: "length ?zs = 5" using assms(2) by (simp add: length_sort_sessions)
  have p1: "page_ids stype sort_by ord 2 1 store = take 2 ?zs" by (simp add: page_ids_alt)
  have p2: "page_ids stype sort_by ord 2 2 store = take 2 (drop 2 ?zs)" by (simp add: page_ids_alt)
  have c1: "card (set (take 2 ?zs)) = 2"
    using d len by (simp add: distinct_card)
  have c2: "card (set (take 2 (drop 2 ?zs))) = 2"
    using d len by (simp add: distinct_card)
  have disj: "set (take 2 ?zs) \<inter> set (take 2 (drop 2 ?zs)) = {}"
    using windows_disjoint [OF d, of 0 2 2 2] by simp
  show ?thesis
    unfolding p1 p2 using c1 c2 disj by (simp add: card_Un_disjoint)
qed

lemma page_ids_subset:
  "set (page_ids stype sort_by ord n page store) \<subseteq> set (map session_id store)"
proof -
  have "set (page_ids stype sort_by ord n page store) \<subseteq>
        set (map session_id (sort_sessions sort_by ord (filter (\<lambda>row. session_type row = stype) store)))"
    unfolding page_ids_alt using set_take_subset set_drop_subset by fast
  also have "\<dots> \<subseteq> set (map session_id store)"
    by (auto simp: set_sort_sessions)
  finally show ?thesis .
qed


text \<open>
  Claim C4, on the store modelled from the spec. No sequence of store operations leaves
  two rows with one \<^verbatim>\<open>session_id\<close>. Upserting a session whose id exists changes no
  row's id and adds none; every row of that id then holds the session's
  \<^verbatim>\<open>session_data\<close>, \<^verbatim>\<open>metadata\<close>, component data and runs; the other rows are as
  before.
\<close>

theorem upsert_session_existing_row:
  "unique_ids (run_ops ops []) \<and>
   (has_session (session_id s) store \<longrightarrow>
      map session_id (upsert_session s store) = map session_id store \<and>
      (\<forall>row \<in> set (upsert_session s store). session_id row = session_id s \<longrightarrow>
         session_data row = session_data s \<and> metadata row = metadata s \<and>
         component_data row = component_data s \<and> runs row = runs s) \<and>
      filter (\<lambda>row. session_id row \<noteq> session_id s) (upsert_session s store) =
        filter (\<lambda>row. session_id row \<noteq> session_id s) store)"
proof (intro conjI impI ballI)
  have "unique_ids []" by (simp add: unique_ids_def)
  then show "unique_ids (run_ops ops [])" by (rule run_ops_unique)
next
  assume "has_session (session_id s) store"
  then show "map session_id (upsert_session s store) = map session_id store"
    by (rule upsert_existing_ids)
next
  fix row
  assume h: "has_session (session_id s) store" and r: "row \<in> set (upsert_session s store)"
    and i: "session_id row = session_id s"
  from upsert_existing_fields [OF r i h]
  show "session_data row = session_data s" "metadata row = metadata s"
    "component_data row = component_data s" "runs row = runs s"
    by simp_all
next
  assume "has_session (session_id s) store"
  then show "filter (\<lambda>row. session_id row \<noteq> session_id s) (upsert_session s store) =
        filter (\<lambda>row. session_id row \<noteq> session_id s) store"
    by (rule upsert_other_rows)
qed

text \<open>
  The session of the fixture \<^verbatim>\<open>sample_agent_session\<close> and its update in
  \<^verbatim>\<open>test_update_agent_session\<close>.
\<close>

definition sample_agent_session :: session where
  "sample_agent_session =
     \<lparr>session_id = ''test_agent_session_1'', session_type = AGENT,
      user_id = Some ''test_user_1'', component_id = Some ''test_agent_1'',
      session_data = [(''session_name'', ''Test Agent Session''), (''key'', ''value'')],
      metadata = [(''extra_key'', ''extra_value'')],
      component_data = [(''name'', ''Test Agent''), (''model'', ''gpt-4'')],
      runs = [''test_agent_run_1''], summary = None, created_at = 1700000000,
      updated_at = 1700000000\<rparr>"

definition updated_agent_session :: session where
  "updated_agent_session =
     sample_agent_session\<lparr>session_data := [(''session_name'', ''Updated Session''), (''updated'', ''True'')],
                          component_data := [(''foo'', ''bar'')]\<rparr>"

theorem upsert_session_existing_row_witness:
  "has_session (session_id updated_agent_session) (upsert_session sample_agent_session []) \<and>
   upsert_session updated_agent_session (upsert_session sample_agent_session []) =
     [updated_agent_session] \<and>
   map session_id (upsert_session updated_agent_session (upsert_session sample_agent_session [])) =
     [''test_agent_session_1''] \<and>
   unique_ids (run_ops [Upsert sample_agent_session, Upsert updated_agent_session] [])"
proof -
  have h: "has_session (session_id updated_agent_session) (upsert_session sample_agent_session [])"
    by (simp add: has_session_def upsert_session_def updated_agent_session_def sample_agent_session_def)
  have e: "upsert_session updated_agent_session (upsert_session sample_agent_session []) =
     [updated_agent_session]"
    by (simp add: has_session_def upsert_session_def updated_agent_session_def
        sample_agent_session_def merge_session_def)
  from upsert_session_existing_row
    [of "[Upsert sample_agent_session, Upsert updated_agent_session]" updated_agent_session
        "upsert_session sample_agent_session []"] h
  have "unique_ids (run_ops [Upsert sample_agent_session, Upsert updated_agent_session] [])"
    and "map session_id (upsert_session updated_agent_session (upsert_session sample_agent_session [])) =
       map session_id (upsert_session sample_agent_session [])"
    by blast+
  moreover have "map session_id (upsert_session sample_agent_session []) = [''test_agent_session_1'']"
    by (simp add: upsert_session_def has_session_def sample_agent_session_def)
  ultimately show ?thesis using h e by simp
qed

text \<open>
  Claim C7, on the store modelled from the spec. For any sort field and order, two
  different pages of a store with unique ids share no session id; in a store with five
  sessions of the type, pages 1 and 2 of two rows are disjoint and together hold four of
  the store's ids.
\<close>

theorem get_sessions_pages_disjoint:
  "(unique_ids store \<and> 1 \<le> p \<and> p < q \<longrightarrow>
      set (page_ids stype sort_by ord n p store) \<inter> set (page_ids stype sort_by ord n q store) = {}) \<and>
   (unique_ids store \<and> length (filter (\<lambda>row. session_type row = stype) store) = 5 \<longrightarrow>
      set (page_ids stype sort_by ord 2 1 store) \<inter> set (page_ids stype sort_by ord 2 2 store) = {} \<and>
      card (set (page_ids stype sort_by ord 2 1 store) \<union> set (page_ids stype sort_by ord 2 2 store)) = 4 \<and>
      set (page_ids stype sort_by ord 2 1 store) \<union> set (page_ids stype sort_by ord 2 2 store)
        \<subseteq> set (map session_id store))"
proof (intro conjI impI)
  assume "unique_ids store \<and> 1 \<le> p \<and> p < q"
  then show "set (page_ids stype sort_by ord n p store) \<inter> set (page_ids stype sort_by ord n q store) = {}"
    by (simp add: pages_disjoint)
next
  assume "unique_ids store \<and> length (filter (\<lambda>row. session_type row = stype) store) = 5"
  then show "set (page_ids stype sort_by ord 2 1 store) \<inter> set (page_ids stype sort_by ord 2 2 store) = {}"
    by (simp add: pages_disjoint)
next
  assume "unique_ids store \<and> length (filter (\<lambda>row. session_type row = stype) store) = 5"
  then have "unique_ids store" and "length (filter (\<lambda>row. session_type row = stype) store) = 5"
    by blast+
  then show "card (set (page_ids stype sort_by ord 2 1 store) \<union> set (page_ids stype sort_by ord 2 2 store)) = 4"
    by (rule two_pages_of_five)
next
  show "set (page_ids stype sort_by ord 2 1 store) \<union> set (page_ids stype sort_by ord 2 2 store)
        \<subseteq> set (map session_id store)"
    using page_ids_subset [of stype sort_by ord 2 1 store] page_ids_subset [of stype sort_by ord 2 2 store]
    by blast
qed

text \<open>
  The five sessions of \<^verbatim>\<open>test_get_sessions_with_pagination\<close>.
\<close>

definition numbered_session :: "string \<Rightarrow> int \<Rightarrow> session" where
  "numbered_session sid t =
     \<lparr>session_id = sid, session_type = AGENT, user_id = Some ''test_user'',
      component_id = None, session_data = [], metadata = [], component_data = [],
      runs = [], summary = None, created_at = t, updated_at = t\<rparr>"

definition five_sessions :: session_store where
  "five_sessions =
     run_ops [Upsert (numbered_session ''session_0'' 1700000000),
              Upsert (numbered_session ''session_1'' 1700000001),
              Upsert (numbered_session ''session_2'' 1700000002),
              Upsert (numbered_session ''session_3'' 1700000003),
              Upsert (numbered_session ''session_4'' 1700000004)] []"

theorem get_sessions_pages_disjoint_witness:
  "unique_ids five_sessions \<and>
   length (filter (\<lambda>row. session_type row = AGENT) five_sessions) = 5 \<and>
   page_ids AGENT ByCreatedAt Desc 2 1 five_sessions = [''session_4'', ''session_3''] \<and>
   page_ids AGENT ByCreatedAt Desc 2 2 five_sessions = [''session_2'', ''session_1''] \<and>
   set (page_ids AGENT ByCreatedAt Desc 2 1 five_sessions) \<inter>
     set (page_ids AGENT ByCreatedAt Desc 2 2 five_sessions) = {} \<and>
   card (set (page_ids AGENT ByCreatedAt Desc 2 1 five_sessions) \<union>
         set (page_ids AGENT ByCreatedAt Desc 2 2 five_sessions)) = 4"
proof -
  have store: "five_sessions =
     [numbered_session ''session_0'' 1700000000, numbered_session ''session_1'' 1700000001,
      numbered_session ''session_2'' 1700000002, numbered_session ''session_3'' 1700000003,
      numbered_session ''session_4'' 1700000004]"
    by (simp add: five_sessions_def upsert_session_def has_session_def numbered_session_def)
  have u: "unique_ids five_sessions"
    by (simp add: store unique_ids_def numbered_session_def)
  have l: "length (filter (\<lambda>row. session_type row = AGENT) five_sessions) = 5"
    by (simp add: store numbered_session_def)
  have p1: "page_ids AGENT ByCreatedAt Desc 2 1 five_sessions = [''session_4'', ''session_3'']"
    by (simp add: store page_ids_def get_sessions_def sort_sessions_def numbered_session_def)
  have p2: "page_ids AGENT ByCreatedAt Desc 2 2 five_sessions = [''session_2'', ''session_1'']"
    by (simp add: store page_ids_def get_sessions_def sort_sessions_def numbered_session_def)
  from get_sessions_pages_disjoint [of five_sessions 1 2 AGENT ByCreatedAt Desc 2] u l
  have "set (page_ids AGENT ByCreatedAt Desc 2 1 five_sessions) \<inter>
     set (page_ids AGENT ByCreatedAt Desc 2 2 five_sessions) = {}"
    and "card (set (page_ids AGENT ByCreatedAt Desc 2 1 five_sessions) \<union>
         set (page_ids AGENT ByCreatedAt Desc 2 2 five_sessions)) = 4"
    by blast+
  with u l p1 p2 show ?thesis by blast
qed

end
